theory Spec2Isabelle
  imports Main "HOL-Library.Log_Nat"
begin

section \<open>The persisted ledger\<close>

text \<open>
  The attempt ledger lives in the browser store under the key \<open>recentApplies\<close>. Every
  reader runs
  \<^verbatim>\<open>JSON.parse(localStorage.getItem('recentApplies') || '[]').filter(t => t > fifteenMinutesAgo)\<close>
  so all the code ever sees of the stored text is: whether there is an item, whether it
  is the empty string (which is falsy, so \<open>'[]'\<close> replaces it), whether \<open>JSON.parse\<close>
  accepts it, and whether the parsed value is an array. The store is modelled by
  that classification. Time stamps are the integers \<open>Date.now()\<close> returns (milliseconds,
  exact in a double below \<open>2^53\<close>); arrays with elements that are not numbers are not
  part of the model.
\<close>

datatype storage_item =
    No_item                \<comment> \<open>\<open>getItem\<close> returns \<open>null\<close>\<close>
  | Empty_text             \<comment> \<open>the stored text is \<open>''\<close>\<close>
  | Not_JSON string        \<comment> \<open>\<open>JSON.parse\<close> throws a SyntaxError with this message\<close>
  | JSON_other             \<comment> \<open>valid JSON, but not an array: the call of \<open>filter\<close> is a TypeError\<close>
  | JSON_array "int list"  \<comment> \<open>what \<open>JSON.stringify\<close> of a list of time stamps writes\<close>

datatype error_name = SyntaxError | TypeError | AbortError | TimeoutError | PlainError

datatype js_error = Thrown error_name string

fun err_name :: "js_error \<Rightarrow> error_name" where
  "err_name (Thrown n m) = n"

fun err_message :: "js_error \<Rightarrow> string" where
  "err_message (Thrown n m) = m"

definition read_recentApplies :: "storage_item \<Rightarrow> int \<Rightarrow> js_error + int list" where
  "read_recentApplies item fifteenMinutesAgo =
     (case item of
        No_item \<Rightarrow> Inr []
      | Empty_text \<Rightarrow> Inr []
      | Not_JSON m \<Rightarrow> Inl (Thrown SyntaxError m)
      | JSON_other \<Rightarrow> Inl (Thrown TypeError ''filter is not a function'')
      | JSON_array ts \<Rightarrow> Inr (filter (\<lambda>timestamp. timestamp > fifteenMinutesAgo) ts))"

text \<open>The time stamps a store holds, for stating what a write did to it.\<close>

fun stored_timestamps :: "storage_item \<Rightarrow> int list" where
  "stored_timestamps (JSON_array ts) = ts"
| "stored_timestamps _ = []"

text \<open>The stores a read accepts: no item, the empty text, or an array.\<close>

fun readable :: "storage_item \<Rightarrow> bool" where
  "readable (Not_JSON m) = False"
| "readable JSON_other = False"
| "readable _ = True"

section \<open>The rate limit evaluator\<close>

definition APPLY_LIMIT_PER_15MINUTES :: nat where
  "APPLY_LIMIT_PER_15MINUTES = 3"

definition RECOMMENDED_COOLDOWN :: int where
  "RECOMMENDED_COOLDOWN = 10"

record rate_limit_info =
  isLimited :: bool
  remainingTime :: int
  appliesInLastMinute :: nat

text \<open>
  \<open>Math.max(...xs)\<close> of a non-empty array, given as its first element and the rest; the
  code never calls it on an empty one.
\<close>

definition Math_max :: "int \<Rightarrow> int list \<Rightarrow> int" where
  "Math_max x xs = fold max xs x"

text \<open>
  \<open>Math.ceil(x / 1000)\<close> for an integer \<open>x\<close>: the quotient is taken in the rationals.
\<close>

definition Math_ceil_div :: "int \<Rightarrow> int \<Rightarrow> int" where
  "Math_ceil_div x d = \<lceil>rat_of_int x / rat_of_int d\<rceil>"

text \<open>
  The snapshot \<open>updateRateLimitInfo\<close> computes from the pruned list and the clock.
\<close>

definition snapshot :: "int \<Rightarrow> int list \<Rightarrow> rate_limit_info" where
  "snapshot now recentApplies =
     (let lastApplyTime = (case recentApplies of [] \<Rightarrow> 0 | t # ts \<Rightarrow> Math_max t ts);
          timeSinceLast = now - lastApplyTime;
          isInCooldown = (timeSinceLast < RECOMMENDED_COOLDOWN * 1000);
          isAtLimit = (length recentApplies \<ge> APPLY_LIMIT_PER_15MINUTES)
      in \<lparr> isLimited = (isInCooldown \<or> isAtLimit),
           remainingTime =
             (if isInCooldown
              then Math_ceil_div (RECOMMENDED_COOLDOWN * 1000 - timeSinceLast) 1000 else 0),
           appliesInLastMinute = length recentApplies \<rparr>)"

section \<open>Numbers of the metric values\<close>

text \<open>
  A metric value is a double. The finite doubles are rationals; \<open>NaN\<close> and the two
  infinities are one value \<open>NonFinite\<close>, which the operations below never leave. A
  scale is a finite double (a slider position or a preset), kept as a rational.
  \<open>fl\<close> rounds a rational to the nearest double, ties to the even significand:
  53 bits, the exponent of the last place at least \<open>-1074\<close>, overflow at \<open>2^1024\<close>.
\<close>

datatype number = Finite rat | NonFinite

definition pow2 :: "int \<Rightarrow> rat" where
  "pow2 e = (if e \<ge> 0 then 2 ^ nat e else 1 / 2 ^ nat (- e))"

definition floor_log2 :: "rat \<Rightarrow> int" where
  "floor_log2 q =
     (case quotient_of q of (n, d) \<Rightarrow>
        let k = bitlen n - bitlen d in if pow2 k \<le> q then k else k - 1)"

definition round_half_even :: "rat \<Rightarrow> int" where
  "round_half_even x =
     (let f = \<lfloor>x\<rfloor>; r = x - rat_of_int f
      in if r < 1 / 2 then f else if 1 / 2 < r then f + 1 else if even f then f else f + 1)"

definition fl :: "rat \<Rightarrow> number" where
  "fl q =
     (if q = 0 then Finite 0
      else let a = \<bar>q\<bar>;
               e = max (floor_log2 a - 52) (- 1074);
               r = rat_of_int (round_half_even (a / pow2 e)) * pow2 e
           in if pow2 1024 \<le> r then NonFinite else Finite (sgn q * r))"

text \<open>The rationals that are doubles: those that rounding leaves as they are.\<close>

definition is_double :: "rat \<Rightarrow> bool" where
  "is_double q = (fl q = Finite q)"

fun js_div :: "number \<Rightarrow> rat \<Rightarrow> number" where
  "js_div (Finite a) b = (if b = 0 then NonFinite else fl (a / b))"
| "js_div NonFinite b = NonFinite"

fun js_mul :: "number \<Rightarrow> rat \<Rightarrow> number" where
  "js_mul (Finite a) b = fl (a * b)"
| "js_mul NonFinite b = NonFinite"

section \<open>The simulator page\<close>

text \<open>Decimal text of a number, as a template literal prints an integer.\<close>

fun show_nat :: "nat \<Rightarrow> string" where
  "show_nat n =
     (if n < 10 then [''0123456789'' ! n] else show_nat (n div 10) @ [''0123456789'' ! (n mod 10)])"

declare show_nat.simps [simp del]

definition show_int :: "int \<Rightarrow> string" where
  "show_int i = (if i < 0 then CHR ''-'' # show_nat (nat (- i)) else show_nat (nat i))"

datatype metric_key = http_request_duration_seconds | cpu_seconds_total | process_memory_bytes

record metric =
  metric_value :: number
  metric_scale :: rat
  metric_unit :: string

text \<open>
  The state of the \<open>MetricsSimulator\<close> component together with the store it reads and
  writes. The display-only fields (\<open>grafanaUrl\<close>, \<open>connectionStatus\<close>, \<open>debugInfo\<close>, the
  icon and colour of a metric) are left out.
\<close>

record state =
  metrics :: "metric_key \<Rightarrow> metric"
  appliedMetrics :: "metric_key \<Rightarrow> metric"
  lastApplied :: int
  isApplying :: bool
  lastError :: "string option"
  isCaptchaVerified :: bool
  captchaKey :: nat
  showGrafanaButton :: bool
  rateLimitInfo :: rate_limit_info
  localStorage :: storage_item

fun initial_metrics :: "metric_key \<Rightarrow> metric" where
  "initial_metrics http_request_duration_seconds =
     \<lparr> metric_value = Finite (1 / 4), metric_scale = 1, metric_unit = ''s'' \<rparr>"
| "initial_metrics cpu_seconds_total =
     \<lparr> metric_value = Finite (6161 / 4), metric_scale = 1, metric_unit = ''s'' \<rparr>"
| "initial_metrics process_memory_bytes =
     \<lparr> metric_value = Finite 536870912, metric_scale = 1, metric_unit = ''bytes'' \<rparr>"

text \<open>The base value of a metric: its value in the initial state, where the scale is 1.\<close>

fun base_value :: "metric_key \<Rightarrow> rat" where
  "base_value http_request_duration_seconds = 1 / 4"
| "base_value cpu_seconds_total = 6161 / 4"
| "base_value process_memory_bytes = 536870912"

text \<open>
  The state at the first render: \<open>item\<close> is what an earlier visit left in the store
  and \<open>now\<close> the clock reading that initialises \<open>lastApplied\<close>.
\<close>

definition initial_state :: "storage_item \<Rightarrow> int \<Rightarrow> state" where
  "initial_state item now =
     \<lparr> metrics = initial_metrics, appliedMetrics = initial_metrics, lastApplied = now,
       isApplying = False, lastError = None, isCaptchaVerified = False, captchaKey = 0,
       showGrafanaButton = False,
       rateLimitInfo = \<lparr> isLimited = False, remainingTime = 0, appliesInLastMinute = 0 \<rparr>,
       localStorage = item \<rparr>"

text \<open>
  \<open>updateRateLimitInfo\<close>: read and prune the ledger, write the pruned list back, set the
  snapshot. An exception of the read leaves the function before either write.
\<close>

definition updateRateLimitInfo :: "int \<Rightarrow> state \<Rightarrow> js_error + state" where
  "updateRateLimitInfo now s =
     (let fifteenMinutesAgo = now - 15 * 60 * 1000 in
      case read_recentApplies (localStorage s) fifteenMinutesAgo of
        Inl e \<Rightarrow> Inl e
      | Inr recentApplies \<Rightarrow>
          Inr (s\<lparr> localStorage := JSON_array recentApplies,
                  rateLimitInfo := snapshot now recentApplies \<rparr>))"

text \<open>
  The interval callback: nothing catches what \<open>updateRateLimitInfo\<close> throws, the timer
  goes on, and the state stays as it was.
\<close>

definition tick :: "int \<Rightarrow> state \<Rightarrow> state" where
  "tick now s = (case updateRateLimitInfo now s of Inl e \<Rightarrow> s | Inr s' \<Rightarrow> s')"

text \<open>The one-second countdown, which runs while \<open>remainingTime\<close> is positive.\<close>

definition countdown :: "state \<Rightarrow> state" where
  "countdown s =
     (if remainingTime (rateLimitInfo s) > 0
      then s\<lparr> rateLimitInfo :=
                (rateLimitInfo s)\<lparr> remainingTime := max 0 (remainingTime (rateLimitInfo s) - 1) \<rparr> \<rparr>
      else s)"

definition handleScaleChange :: "metric_key \<Rightarrow> rat \<Rightarrow> state \<Rightarrow> state" where
  "handleScaleChange metricName newScale s =
     s\<lparr> metrics := (metrics s)(metricName := (metrics s metricName)\<lparr> metric_scale := newScale \<rparr>) \<rparr>"

definition resetAll :: "state \<Rightarrow> state" where
  "resetAll s = s\<lparr> metrics := (\<lambda>key. (metrics s key)\<lparr> metric_scale := 1 \<rparr>) \<rparr>"

definition hasChanges :: "state \<Rightarrow> bool" where
  "hasChanges s =
     list_ex (\<lambda>key. metric_scale (metrics s key) \<noteq> metric_scale (appliedMetrics s key))
       [http_request_duration_seconds, cpu_seconds_total, process_memory_bytes]"

definition isApplyDisabled :: "state \<Rightarrow> bool" where
  "isApplyDisabled s =
     (\<not> hasChanges s \<or> isApplying s \<or> \<not> isCaptchaVerified s \<or> isLimited (rateLimitInfo s))"

text \<open>
  The banner of the \<open>RateLimitManager\<close> component: nothing unless \<open>isLimited\<close>,
  otherwise its heading and its line of text.
\<close>

definition formatTime :: "int \<Rightarrow> string" where
  "formatTime seconds = show_int seconds @ ''s''"

definition RateLimitManager_banner :: "rate_limit_info \<Rightarrow> (string \<times> string) option" where
  "RateLimitManager_banner info =
     (if isLimited info
      then Some (if remainingTime info > 0 then ''Cooldown Active'' else ''Rate Limited'',
                 if remainingTime info > 0
                 then ''Wait '' @ formatTime (remainingTime info) @ '' before applying changes''
                 else if appliesInLastMinute info \<ge> APPLY_LIMIT_PER_15MINUTES
                 then ''You've used all '' @ show_nat APPLY_LIMIT_PER_15MINUTES
                        @ '' applies in the last 15 minutes''
                 else ''Rate limit active'')
      else None)"

section \<open>Applying the changes\<close>

text \<open>
  \<open>applyChanges\<close> is an async function with one suspension point of interest, the
  \<open>await\<close> of \<open>fetch\<close>. It is modelled in two halves. \<open>applyChanges_begin\<close> runs from
  the call to the \<open>fetch\<close>: it returns the new state and, when a request is sent,
  \<open>newAppliedMetrics\<close>, which the suspended call keeps and whose values are the
  request's payload (the clock stamps of the payload are not modelled).
  \<open>applyChanges_settle\<close> runs when the \<open>fetch\<close> settles.
\<close>

definition newAppliedMetrics_of :: "state \<Rightarrow> metric_key \<Rightarrow> metric" where
  "newAppliedMetrics_of s key =
     (let baseValue = js_div (metric_value (appliedMetrics s key)) (metric_scale (appliedMetrics s key))
      in (metrics s key)\<lparr> metric_value := js_mul baseValue (metric_scale (metrics s key)) \<rparr>)"

text \<open>The three messages of the local rejections, as the code words them.\<close>

definition verification_message :: string where
  "verification_message = ''Please complete the security verification first.''"

definition wait_message :: "int \<Rightarrow> string" where
  "wait_message remaining = ''Please wait '' @ show_int remaining @ '' seconds before applying again.''"

definition limit_message :: string where
  "limit_message =
     ''Rate limit exceeded. You've used all '' @ show_nat APPLY_LIMIT_PER_15MINUTES
       @ '' applies in the last 15 minutes.''"

definition applyChanges_begin :: "state \<Rightarrow> state \<times> (metric_key \<Rightarrow> metric) option" where
  "applyChanges_begin s =
     (if \<not> isCaptchaVerified s then (s\<lparr> lastError := Some verification_message \<rparr>, None)
      else if isLimited (rateLimitInfo s)
      then (if remainingTime (rateLimitInfo s) > 0
            then (s\<lparr> lastError := Some (wait_message (remainingTime (rateLimitInfo s))) \<rparr>, None)
            else (s\<lparr> lastError := Some limit_message \<rparr>, None))
      else (s\<lparr> isApplying := True, lastError := None \<rparr>, Some (newAppliedMetrics_of s)))"

text \<open>
  What \<open>handleResponse\<close> hands back: the status and the body. Of the body the code
  reads \<open>typeof\<close>, and for an object its \<open>message\<close> and \<open>detail\<close>; a field is \<open>None\<close>
  when it is absent or falsy, and a body that is not an object is the text it coerces
  to, empty when falsy. A \<open>fetch\<close> that rejects carries the error it rejects with.
\<close>

datatype response_data = Data_null | Data_object "string option" "string option" | Data_text string

datatype fetch_result = Responded nat response_data | Rejected js_error

definition response_ok :: "nat \<Rightarrow> bool" where
  "response_ok status = (200 \<le> status \<and> status \<le> 299)"

fun resolves_2xx :: "fetch_result \<Rightarrow> bool" where
  "resolves_2xx (Responded status d) = response_ok status"
| "resolves_2xx (Rejected e) = False"

definition or_else :: "string option \<Rightarrow> string option \<Rightarrow> string option" where
  "or_else a b = (case a of Some x \<Rightarrow> (if x = [] then b else a) | None \<Rightarrow> b)"

definition error_of_response :: "nat \<Rightarrow> response_data \<Rightarrow> js_error" where
  "error_of_response status d =
     (if status = 429 then Thrown PlainError ''Rate limit exceeded. Please wait before trying again.''
      else if status = 503 then Thrown PlainError ''Service unavailable. Backend may be down or starting up.''
      else if status = 502 \<or> status = 504 then Thrown PlainError ''Gateway error. Check if all services are running.''
      else case d of
             Data_null \<Rightarrow> Thrown TypeError ''Cannot read properties of null''
           | Data_object message detail \<Rightarrow>
               (case or_else (or_else message detail) (Some (''HTTP '' @ show_nat status)) of
                  Some m \<Rightarrow> Thrown PlainError m | None \<Rightarrow> Thrown PlainError [])
           | Data_text t \<Rightarrow>
               (case or_else (Some t) (Some (''HTTP '' @ show_nat status)) of
                  Some m \<Rightarrow> Thrown PlainError m | None \<Rightarrow> Thrown PlainError []))"

text \<open>
  The rest of the \<open>try\<close> block. It returns the state reached and the exception that
  ended it, if one did: the state updates made before a \<open>throw\<close> stay. \<open>now\<close> is the
  clock reading of the success branch, \<open>now2\<close> the one of its closing call of
  \<open>updateRateLimitInfo\<close>.
\<close>

definition success_branch ::
    "(metric_key \<Rightarrow> metric) \<Rightarrow> int \<Rightarrow> int \<Rightarrow> state \<Rightarrow> state \<times> js_error option" where
  "success_branch newAppliedMetrics now now2 s =
     (let s1 = s\<lparr> appliedMetrics := newAppliedMetrics, lastApplied := now \<rparr>;
          fifteenMinutesAgo = now - 15 * 60 * 1000
      in (case read_recentApplies (localStorage s1) fifteenMinutesAgo of
            Inl e \<Rightarrow> (s1, Some e)
          | Inr recentApplies \<Rightarrow>
              (let s2 = s1\<lparr> localStorage := JSON_array (recentApplies @ [now]),
                            isCaptchaVerified := False,
                            captchaKey := captchaKey s1 + 1,
                            showGrafanaButton := True \<rparr>
               in (case updateRateLimitInfo now2 s2 of
                     Inl e \<Rightarrow> (s2, Some e)
                   | Inr s3 \<Rightarrow> (s3, None)))))"

definition try_after_fetch ::
    "fetch_result \<Rightarrow> (metric_key \<Rightarrow> metric) \<Rightarrow> int \<Rightarrow> int \<Rightarrow> state \<Rightarrow> state \<times> js_error option" where
  "try_after_fetch result newAppliedMetrics now now2 s =
     (case result of
        Rejected e \<Rightarrow> (s, Some e)
      | Responded status d \<Rightarrow>
          (if \<not> response_ok status then (s, Some (error_of_response status d))
           else success_branch newAppliedMetrics now now2 s))"

definition catch_message :: "js_error \<Rightarrow> string" where
  "catch_message error =
     (if err_name error = AbortError then ''Request timeout. Server may be overloaded.''
      else if err_name error = TypeError then ''Network error. Check your connection.''
      else err_message error)"

definition applyChanges_settle ::
    "fetch_result \<Rightarrow> (metric_key \<Rightarrow> metric) \<Rightarrow> int \<Rightarrow> int \<Rightarrow> state \<Rightarrow> state" where
  "applyChanges_settle result newAppliedMetrics now now2 s =
     (case try_after_fetch result newAppliedMetrics now now2 s of
        (s', None) \<Rightarrow> s'\<lparr> isApplying := False \<rparr>
      | (s', Some error) \<Rightarrow> s'\<lparr> lastError := Some (catch_message error), isApplying := False \<rparr>)"

section \<open>Numbers of the pixel positions\<close>

text \<open>
  The positions of the puzzle are doubles as well, and \<open>Math.max\<close>, \<open>Math.min\<close> and
  \<open>\<le>\<close> tell the infinities and \<open>NaN\<close> apart, so here they are kept apart. An
  operation on two finite doubles is the exact operation, rounded; one that overflows
  gives the infinity of its sign. The sign of a zero is not kept: nothing below divides.
\<close>

datatype double = Num rat | PlusInfinity | MinusInfinity | NaN

definition to_double :: "rat \<Rightarrow> double" where
  "to_double q =
     (case fl q of
        Finite r \<Rightarrow> Num r
      | NonFinite \<Rightarrow> if 0 < q then PlusInfinity else MinusInfinity)"

fun neg_d :: "double \<Rightarrow> double" where
  "neg_d (Num a) = Num (- a)"
| "neg_d PlusInfinity = MinusInfinity"
| "neg_d MinusInfinity = PlusInfinity"
| "neg_d NaN = NaN"

fun add_d :: "double \<Rightarrow> double \<Rightarrow> double" where
  "add_d (Num a) (Num b) = to_double (a + b)"
| "add_d NaN y = NaN"
| "add_d x NaN = NaN"
| "add_d PlusInfinity MinusInfinity = NaN"
| "add_d MinusInfinity PlusInfinity = NaN"
| "add_d PlusInfinity y = PlusInfinity"
| "add_d x PlusInfinity = PlusInfinity"
| "add_d MinusInfinity y = MinusInfinity"
| "add_d x MinusInfinity = MinusInfinity"

definition sub_d :: "double \<Rightarrow> double \<Rightarrow> double" where
  "sub_d x y = add_d x (neg_d y)"

fun mul_d :: "double \<Rightarrow> double \<Rightarrow> double" where
  "mul_d (Num a) (Num b) = to_double (a * b)"
| "mul_d NaN y = NaN"
| "mul_d x NaN = NaN"
| "mul_d (Num a) y = (if a = 0 then NaN else if 0 < a then y else neg_d y)"
| "mul_d x (Num b) = (if b = 0 then NaN else if 0 < b then x else neg_d x)"
| "mul_d PlusInfinity y = y"
| "mul_d MinusInfinity y = neg_d y"

text \<open>The comparison \<open>x <= y\<close> of two numbers: false when either is \<open>NaN\<close>.\<close>

fun le_d :: "double \<Rightarrow> double \<Rightarrow> bool" where
  "le_d NaN y = False"
| "le_d x NaN = False"
| "le_d (Num a) (Num b) = (a \<le> b)"
| "le_d MinusInfinity y = True"
| "le_d x PlusInfinity = True"
| "le_d x y = False"

definition Math_max_d :: "double \<Rightarrow> double \<Rightarrow> double" where
  "Math_max_d x y = (if x = NaN \<or> y = NaN then NaN else if le_d x y then y else x)"

definition Math_min_d :: "double \<Rightarrow> double \<Rightarrow> double" where
  "Math_min_d x y = (if x = NaN \<or> y = NaN then NaN else if le_d x y then x else y)"

fun Math_abs :: "double \<Rightarrow> double" where
  "Math_abs (Num a) = Num \<bar>a\<bar>"
| "Math_abs PlusInfinity = PlusInfinity"
| "Math_abs MinusInfinity = PlusInfinity"
| "Math_abs NaN = NaN"

section \<open>The sliding puzzle\<close>

text \<open>
  The state of the \<open>SlidingCaptcha\<close> component. Positions are pixel offsets, doubles,
  and every operation on them rounds as the program's does. The constants are small
  integers, and \<open>HANDLE_WIDTH / 2\<close> and \<open>TARGET_WIDTH / 2\<close> are 20 and 16, exact.
  \<open>tolerance\<close> is a state variable that is never set, so a constant.
\<close>

record captcha =
  isVerified :: bool
  sliderPosition :: double
  isDragging :: bool
  puzzlePosition :: double
  containerWidth :: double

definition HANDLE_WIDTH :: rat where
  "HANDLE_WIDTH = 40"

definition TARGET_WIDTH :: rat where
  "TARGET_WIDTH = 32"

definition tolerance :: rat where
  "tolerance = 5"

definition initial_captcha :: captcha where
  "initial_captcha =
     \<lparr> isVerified = False, sliderPosition = Num 0, isDragging = False, puzzlePosition = Num 0,
       containerWidth = Num 300 \<rparr>"

text \<open>
  \<open>generateNewPuzzle\<close>, given the value \<open>Math.random()\<close> returns, a double in \<open>[0, 1)\<close>.
  The literals \<open>0.15\<close> and \<open>0.75\<close> are the doubles nearest to them. It also calls
  \<open>onVerify(false)\<close>, which the page below passes on to \<open>isCaptchaVerified\<close>.
\<close>

definition generateNewPuzzle :: "rat \<Rightarrow> captcha \<Rightarrow> captcha" where
  "generateNewPuzzle random c =
     (let minPos = mul_d (containerWidth c) (to_double (15 / 100));
          maxPos = mul_d (containerWidth c) (to_double (75 / 100));
          newPosition = add_d (mul_d (Num random) (sub_d maxPos minPos)) minPos
      in c\<lparr> puzzlePosition := newPosition, sliderPosition := Num 0, isVerified := False \<rparr>)"

definition checkVerification :: "captcha \<Rightarrow> double \<Rightarrow> bool" where
  "checkVerification c sliderPos =
     (let sliderCenter = add_d sliderPos (Num (HANDLE_WIDTH / 2));
          targetCenter = add_d (puzzlePosition c) (Num (TARGET_WIDTH / 2))
      in le_d (Math_abs (sub_d sliderCenter targetCenter)) (Num tolerance))"

definition handleMouseDown :: "bool \<Rightarrow> captcha \<Rightarrow> captcha" where
  "handleMouseDown disabled c = (if disabled \<or> isVerified c then c else c\<lparr> isDragging := True \<rparr>)"

text \<open>
  \<open>handleMouseMove\<close> (and \<open>handleTouchMove\<close>, which is the same on the first touch):
  \<open>rect_left\<close> is the left edge of the container, \<open>None\<close> when the container is gone;
  it and \<open>clientX\<close> are finite doubles. The second component of the result says whether
  \<open>onVerify(true)\<close> was called.
\<close>

definition handleMouseMove :: "bool \<Rightarrow> rat option \<Rightarrow> rat \<Rightarrow> captcha \<Rightarrow> captcha \<times> bool" where
  "handleMouseMove disabled rect_left clientX c =
     (if \<not> isDragging c \<or> disabled \<or> isVerified c then (c, False)
      else (case rect_left of
              None \<Rightarrow> (c, False)
            | Some left \<Rightarrow>
                (let newPosition =
                       Math_max_d (Num 0)
                         (Math_min_d (sub_d (containerWidth c) (Num HANDLE_WIDTH))
                            (sub_d (sub_d (Num clientX) (Num left)) (Num (HANDLE_WIDTH / 2))));
                     c1 = c\<lparr> sliderPosition := newPosition \<rparr>
                 in if checkVerification c newPosition
                    then (c1\<lparr> isVerified := True, isDragging := False \<rparr>, True)
                    else (c1, False))))"

definition handleMouseUp :: "captcha \<Rightarrow> captcha" where
  "handleMouseUp c =
     (if \<not> isDragging c then c
      else if \<not> isVerified c then c\<lparr> isDragging := False, sliderPosition := Num 0 \<rparr>
      else c\<lparr> isDragging := False \<rparr>)"

text \<open>\<open>updateWidth\<close>, given the \<open>offsetWidth\<close> of the container, a finite double.\<close>

definition updateWidth :: "rat \<Rightarrow> captcha \<Rightarrow> captcha" where
  "updateWidth offsetWidth c = c\<lparr> containerWidth := sub_d (Num offsetWidth) (Num 40) \<rparr>"

text \<open>
  Mounting the component: the initial state, then the two mount effects in their order,
  \<open>generateNewPuzzle\<close> (which sees the initial width) and \<open>updateWidth\<close>.
\<close>

definition mount_captcha :: "rat \<Rightarrow> rat \<Rightarrow> captcha" where
  "mount_captcha random offsetWidth = updateWidth offsetWidth (generateNewPuzzle random initial_captcha)"

section \<open>The page as a state machine\<close>

text \<open>
  The page reacts to one event at a time. \<open>inflight\<close> lists the calls of \<open>applyChanges\<close>
  that wait for their \<open>fetch\<close>, each with the \<open>newAppliedMetrics\<close> it keeps: one entry
  per request sent and not yet settled.
\<close>

record page =
  app :: state
  puzzle :: captcha
  inflight :: "(metric_key \<Rightarrow> metric) list"

datatype event =
    Tick int                               \<comment> \<open>\<open>updateRateLimitInfo\<close> runs, the clock reads the argument\<close>
  | Countdown
  | ScaleChange metric_key rat
  | ResetAll
  | ClickApply
  | FetchSettles fetch_result int int rat rat
      \<comment> \<open>the result, the two clock readings, and \<open>Math.random()\<close> and the measured width for a remount\<close>
  | HideGrafanaButton
  | MouseDown
  | MouseMove "rat option" rat
  | MouseUp
  | ClickResetCaptcha rat
  | Resize rat
  | StoreWritten storage_item              \<comment> \<open>another page of the origin, or the user, writes the item\<close>

definition initial_page :: "storage_item \<Rightarrow> int \<Rightarrow> rat \<Rightarrow> rat \<Rightarrow> page" where
  "initial_page item now random offsetWidth =
     \<lparr> app = initial_state item now, puzzle = mount_captcha random offsetWidth, inflight = [] \<rparr>"

text \<open>
  The Apply button carries \<open>disabled={isApplyDisabled}\<close> and Reset All
  \<open>disabled={isApplying}\<close>; a disabled button delivers no click. The puzzle gets
  \<open>disabled={isApplying}\<close> and \<open>key={captchaKey}\<close>: a new key mounts a new puzzle.
\<close>

fun react :: "event \<Rightarrow> page \<Rightarrow> page" where
  "react (Tick now) p = p\<lparr> app := tick now (app p) \<rparr>"
| "react Countdown p = p\<lparr> app := countdown (app p) \<rparr>"
| "react (ScaleChange metricName newScale) p = p\<lparr> app := handleScaleChange metricName newScale (app p) \<rparr>"
| "react ResetAll p = (if isApplying (app p) then p else p\<lparr> app := resetAll (app p) \<rparr>)"
| "react ClickApply p =
     (if isApplyDisabled (app p) then p
      else (case applyChanges_begin (app p) of
              (s', None) \<Rightarrow> p\<lparr> app := s' \<rparr>
            | (s', Some m) \<Rightarrow> p\<lparr> app := s', inflight := inflight p @ [m] \<rparr>))"
| "react (FetchSettles result now now2 random offsetWidth) p =
     (case inflight p of
        [] \<Rightarrow> p
      | m # rest \<Rightarrow>
          (let s' = applyChanges_settle result m now now2 (app p)
           in p\<lparr> app := s', inflight := rest,
                 puzzle := (if captchaKey s' = captchaKey (app p) then puzzle p
                            else mount_captcha random offsetWidth) \<rparr>))"
| "react HideGrafanaButton p = p\<lparr> app := (app p)\<lparr> showGrafanaButton := False \<rparr> \<rparr>"
| "react MouseDown p = p\<lparr> puzzle := handleMouseDown (isApplying (app p)) (puzzle p) \<rparr>"
| "react (MouseMove rect_left clientX) p =
     (case handleMouseMove (isApplying (app p)) rect_left clientX (puzzle p) of
        (c, verified) \<Rightarrow>
          p\<lparr> puzzle := c,
              app := (if verified then (app p)\<lparr> isCaptchaVerified := True \<rparr> else app p) \<rparr>)"
| "react MouseUp p = p\<lparr> puzzle := handleMouseUp (puzzle p) \<rparr>"
| "react (ClickResetCaptcha random) p =
     p\<lparr> puzzle := generateNewPuzzle random (puzzle p), app := (app p)\<lparr> isCaptchaVerified := False \<rparr> \<rparr>"
| "react (Resize offsetWidth) p = p\<lparr> puzzle := updateWidth offsetWidth (puzzle p) \<rparr>"
| "react (StoreWritten item) p = p\<lparr> app := (app p)\<lparr> localStorage := item \<rparr> \<rparr>"

text \<open>
  The states the page can reach. The mount effect calls \<open>updateRateLimitInfo\<close> (the first
  \<open>Tick\<close> of a run); an exception there is thrown inside an effect, with no error boundary
  above, which takes the whole page down. So a page that lives started on a store it
  could read. Later the store can hold anything: it is shared with every page of the
  origin.
\<close>

inductive reachable :: "page \<Rightarrow> bool" where
  start: "readable item \<Longrightarrow> reachable (initial_page item now random offsetWidth)"
| step: "reachable p \<Longrightarrow> reachable (react e p)"

text \<open>A run of the page: the events in their order.\<close>

fun run :: "event list \<Rightarrow> page \<Rightarrow> page" where
  "run [] p = p"
| "run (e # es) p = run es (react e p)"

fun settles :: "event \<Rightarrow> bool" where
  "settles (FetchSettles result now now2 random offsetWidth) = True"
| "settles _ = False"

fun external :: "event \<Rightarrow> bool" where
  "external (StoreWritten item) = True"
| "external _ = False"

section \<open>The evaluator as the specification words it\<close>

text \<open>
  The specification's \<open>evaluate(ledger, now)\<close>, step by step, for comparison with
  \<open>snapshot\<close>: the window, its size, the last attempt or minus infinity (\<open>None\<close>) for
  an empty window, the remaining cooldown, which minus infinity makes zero, and the
  disjunction.
\<close>

definition spec_window :: "int list \<Rightarrow> int \<Rightarrow> int \<Rightarrow> int list" where
  "spec_window ledger now durationMs = filter (\<lambda>timestamp. now - timestamp < durationMs) ledger"

definition spec_evaluate :: "int list \<Rightarrow> int \<Rightarrow> rate_limit_info" where
  "spec_evaluate ledger now =
     (let windowAttempts = spec_window ledger now (15 * 60 * 1000);
          attemptsInWindow = length windowAttempts;
          lastAttempt = (if windowAttempts = [] then None else Some (Max (set windowAttempts)));
          cooldownRemaining =
            (case lastAttempt of
               None \<Rightarrow> 0
             | Some l \<Rightarrow> max 0 \<lceil>rat_of_int (10 * 1000 - (now - l)) / 1000\<rceil>)
      in \<lparr> isLimited = (cooldownRemaining > 0 \<or> attemptsInWindow \<ge> 3),
           remainingTime = cooldownRemaining,
           appliesInLastMinute = attemptsInWindow \<rparr>)"

section \<open>Rounding to the nearest double\<close>

text \<open>
  Facts about \<open>fl\<close>, and two equations by which it evaluates faster: \<open>2^1024\<close> written
  out, and no rounding where the argument is a double on sight, an integer below
  \<open>2^53\<close> over a power of two.
\<close>

lemma pow2_1024:
  "pow2 1024 = 179769313486231590772930519078902473361797697894230657273430081157732675805500963132708477322407536021120113879871393357658789768814416622492847430639474124377767893424865485276302219601246094119453082952085005768838150682342462881473913110540827237163350510684586298239947245938479716304835356329624224137216"
  by (simp add: pow2_def)

lemma fl_code:
  "fl q =
     (if q = 0 then Finite 0
      else let a = \<bar>q\<bar>;
               e = max (floor_log2 a - 52) (- 1074);
               r = rat_of_int (round_half_even (a / pow2 e)) * pow2 e
           in if 179769313486231590772930519078902473361797697894230657273430081157732675805500963132708477322407536021120113879871393357658789768814416622492847430639474124377767893424865485276302219601246094119453082952085005768838150682342462881473913110540827237163350510684586298239947245938479716304835356329624224137216 \<le> r
              then NonFinite else Finite (sgn q * r))"
  unfolding fl_def pow2_1024 ..

lemma pow2_powi: "pow2 e = 2 powi e"
  by (simp add: pow2_def power_int_def inverse_eq_divide power_one_over)

lemma pow2_pos: "0 < pow2 e"
  by (simp add: pow2_powi)

lemma pow2_add: "pow2 (a + b) = pow2 a * pow2 b"
  by (simp add: pow2_powi power_int_add)

lemma pow2_less_iff: "pow2 a < pow2 b \<longleftrightarrow> a < b"
proof
  assume "a < b" then show "pow2 a < pow2 b"
    by (simp add: pow2_powi power_int_strict_increasing)
next
  assume l: "pow2 a < pow2 b"
  show "a < b"
  proof (rule ccontr)
    assume "\<not> a < b"
    then have "b \<le> a" by simp
    then have "pow2 b \<le> pow2 a" by (simp add: pow2_powi power_int_increasing)
    with l show False by simp
  qed
qed

lemma pow2_nat: "0 \<le> e \<Longrightarrow> pow2 e = 2 ^ nat e"
  by (simp add: pow2_def)

lemma bitlen_rat_bounds:
  assumes "0 < n"
  shows "pow2 (bitlen n - 1) \<le> rat_of_int n" and "rat_of_int n < pow2 (bitlen n)"
proof -
  from assms have b1: "1 \<le> bitlen n" by (auto simp: bitlen_alt_def)
  from bitlen_bounds [OF assms]
  have lo: "2 ^ nat (bitlen n - 1) \<le> n" and hi: "n < 2 ^ nat (bitlen n)" by simp_all
  have "rat_of_int (2 ^ nat (bitlen n - 1)) \<le> rat_of_int n"
    using lo by (simp only: of_int_le_iff)
  then show "pow2 (bitlen n - 1) \<le> rat_of_int n"
    using b1 by (simp add: pow2_nat)
  have "rat_of_int n < rat_of_int (2 ^ nat (bitlen n))"
    using hi by (simp only: of_int_less_iff)
  then show "rat_of_int n < pow2 (bitlen n)"
    using b1 by (simp add: pow2_nat)
qed

lemma floor_log2_bounds:
  assumes "0 < q"
  shows "pow2 (floor_log2 q) \<le> q \<and> q < pow2 (floor_log2 q + 1)"
proof -
  obtain n d where qd: "quotient_of q = (n, d)" by (cases "quotient_of q")
  then have d: "0 < d" by (rule quotient_of_denom_pos)
  from qd have q: "q = rat_of_int n / rat_of_int d" by (rule quotient_of_div)
  with assms d have n: "0 < n" by (simp add: zero_less_divide_iff)
  let ?k = "bitlen n - bitlen d"
  have dpos: "0 < rat_of_int d" using d by simp
  have "q < pow2 (bitlen n) / pow2 (bitlen d - 1)"
  proof -
    have "rat_of_int n / rat_of_int d < pow2 (bitlen n) / rat_of_int d"
      using bitlen_rat_bounds(2) [OF n] dpos by (simp add: divide_strict_right_mono)
    also have "\<dots> \<le> pow2 (bitlen n) / pow2 (bitlen d - 1)"
      using bitlen_rat_bounds(1) [OF d] pow2_pos [of "bitlen n"] pow2_pos [of "bitlen d - 1"]
      by (simp add: frac_le)
    finally show ?thesis by (simp add: q)
  qed
  moreover have "pow2 (bitlen n) / pow2 (bitlen d - 1) = pow2 (?k + 1)"
  proof -
    have "pow2 (?k + 1) * pow2 (bitlen d - 1) = pow2 (bitlen n)"
      by (simp flip: pow2_add)
    then show ?thesis using pow2_pos [of "bitlen d - 1"] by (simp add: field_simps)
  qed
  ultimately have hi: "q < pow2 (?k + 1)" by simp
  have "pow2 (bitlen n - 1) / pow2 (bitlen d) < q"
  proof -
    have "pow2 (bitlen n - 1) / pow2 (bitlen d) < pow2 (bitlen n - 1) / rat_of_int d"
      using bitlen_rat_bounds(2) [OF d] dpos pow2_pos [of "bitlen n - 1"]
      by (simp add: divide_strict_left_mono)
    also have "\<dots> \<le> rat_of_int n / rat_of_int d"
      using bitlen_rat_bounds(1) [OF n] dpos by (simp add: divide_right_mono)
    finally show ?thesis by (simp add: q)
  qed
  moreover have "pow2 (bitlen n - 1) / pow2 (bitlen d) = pow2 (?k - 1)"
  proof -
    have "pow2 (?k - 1) * pow2 (bitlen d) = pow2 (bitlen n - 1)"
      by (simp flip: pow2_add)
    then show ?thesis using pow2_pos [of "bitlen d"] by (simp add: field_simps)
  qed
  ultimately have lo: "pow2 (?k - 1) < q" by simp
  show ?thesis
    using lo hi by (simp add: floor_log2_def qd Let_def)
qed

lemma floor_log2_unique:
  assumes "0 < q" and "pow2 k \<le> q" and "q < pow2 (k + 1)"
  shows "floor_log2 q = k"
proof -
  from floor_log2_bounds [OF assms(1)]
  have lo: "pow2 (floor_log2 q) \<le> q" and hi: "q < pow2 (floor_log2 q + 1)" by simp_all
  from lo assms(3) have "pow2 (floor_log2 q) < pow2 (k + 1)" by simp
  then have a: "floor_log2 q < k + 1" by (simp only: pow2_less_iff)
  from assms(2) hi have "pow2 k < pow2 (floor_log2 q + 1)" by simp
  then have b: "k < floor_log2 q + 1" by (simp only: pow2_less_iff)
  from a b show ?thesis by simp
qed


lemma round_half_even_near:
  assumes "rat_of_int m - 1 / 2 < x" and "x < rat_of_int m + 1 / 2"
  shows "round_half_even x = m"
proof -
  let ?f = "\<lfloor>x\<rfloor>"
  have f1: "rat_of_int ?f \<le> x" and f2: "x < rat_of_int ?f + 1"
    by (simp_all add: floor_less_cancel)
  have low: "x - rat_of_int ?f < 1 / 2 \<Longrightarrow> ?f = m"
  proof -
    assume "x - rat_of_int ?f < 1 / 2"
    with assms f1 have "rat_of_int ?f < rat_of_int m + 1 / 2" "rat_of_int m < rat_of_int ?f + 1"
      by linarith+
    then have "rat_of_int ?f < rat_of_int (m + 1)" "rat_of_int m < rat_of_int (?f + 1)"
      by simp_all
    then have "?f < m + 1" "m < ?f + 1" by (simp_all only: of_int_less_iff)
    then show "?f = m" by simp
  qed
  have high: "1 / 2 < x - rat_of_int ?f \<Longrightarrow> ?f + 1 = m"
  proof -
    assume "1 / 2 < x - rat_of_int ?f"
    with assms f2 have "rat_of_int ?f < rat_of_int m" "rat_of_int m < rat_of_int ?f + 2"
      by linarith+
    then have "rat_of_int ?f < rat_of_int m" "rat_of_int m < rat_of_int (?f + 2)"
      by simp_all
    then have "?f < m" "m < ?f + 2" by (simp_all only: of_int_less_iff)
    then show "?f + 1 = m" by simp
  qed
  have tie: "x - rat_of_int ?f = 1 / 2 \<Longrightarrow> False"
  proof -
    assume "x - rat_of_int ?f = 1 / 2"
    with assms have "rat_of_int m < rat_of_int ?f + 1" "rat_of_int ?f < rat_of_int m"
      by linarith+
    then have "rat_of_int m < rat_of_int (?f + 1)" "rat_of_int ?f < rat_of_int m"
      by simp_all
    then have "m < ?f + 1" "?f < m" by (simp_all only: of_int_less_iff)
    then show False by simp
  qed
  show ?thesis
    unfolding round_half_even_def Let_def
    using low high tie by (cases "x - rat_of_int ?f < 1 / 2"; cases "1 / 2 < x - rat_of_int ?f") auto
qed

lemma fl_positive:
  assumes "0 < q" and "pow2 k \<le> q" and "q < pow2 (k + 1)" and "- 1074 \<le> k - 52"
    and "rat_of_int m - 1 / 2 < q / pow2 (k - 52)" and "q / pow2 (k - 52) < rat_of_int m + 1 / 2"
    and "rat_of_int m * pow2 (k - 52) < pow2 1024"
  shows "fl q = Finite (rat_of_int m * pow2 (k - 52))"
proof -
  have k: "floor_log2 q = k" using assms(1-3) by (rule floor_log2_unique)
  have e: "max (k - 52) (- 1074) = k - 52" using assms(4) by simp
  have a: "\<bar>q\<bar> = q" "sgn q = 1" "q \<noteq> 0" using assms(1) by simp_all
  have m: "round_half_even (q / pow2 (k - 52)) = m"
    using assms(5,6) by (rule round_half_even_near)
  show ?thesis
    using assms(7) by (simp add: fl_def a k e m Let_def)
qed

lemma round_half_even_of_int: "round_half_even (rat_of_int n) = n"
  by (simp add: round_half_even_def)

lemma pow2_diff_nat: "b \<le> a \<Longrightarrow> pow2 a / pow2 b = rat_of_int (2 ^ nat (a - b))"
proof -
  assume "b \<le> a"
  then have "pow2 (a - b) = 2 ^ nat (a - b)" by (simp add: pow2_nat)
  moreover have "pow2 (a - b) * pow2 b = pow2 a" by (simp flip: pow2_add)
  ultimately show ?thesis using pow2_pos [of b] by (simp add: field_simps)
qed

lemma floor_log2_scale:
  assumes "0 < a"
  shows "floor_log2 (pow2 k * a) = floor_log2 a + k"
proof (rule floor_log2_unique)
  from floor_log2_bounds [OF assms]
  have lo: "pow2 (floor_log2 a) \<le> a" and hi: "a < pow2 (floor_log2 a + 1)" by simp_all
  show "0 < pow2 k * a" using assms pow2_pos [of k] by simp
  have "pow2 k * pow2 (floor_log2 a) \<le> pow2 k * a"
    using lo pow2_pos [of k] by simp
  then show "pow2 (floor_log2 a + k) \<le> pow2 k * a"
    by (simp add: pow2_add mult.commute)
  have "pow2 k * a < pow2 k * pow2 (floor_log2 a + 1)"
    using hi pow2_pos [of k] by simp
  then show "pow2 k * a < pow2 (floor_log2 a + k + 1)"
    by (simp add: pow2_add mult.commute mult.left_commute)
qed

lemma fl_scale:
  assumes dbl: "fl s = Finite s" and nz: "s \<noteq> 0"
    and under: "- 1074 \<le> floor_log2 \<bar>s\<bar> - 52 + k"
    and over: "pow2 k * \<bar>s\<bar> < pow2 1024"
  shows "fl (pow2 k * s) = Finite (pow2 k * s)"
proof -
  let ?a = "\<bar>s\<bar>"
  let ?e = "max (floor_log2 ?a - 52) (- 1074)"
  let ?M = "round_half_even (?a / pow2 ?e)"
  have apos: "0 < ?a" using nz by simp
  have "sgn s * (rat_of_int ?M * pow2 ?e) = s"
    using dbl nz by (simp add: fl_def Let_def split: if_splits)
  then have "\<bar>sgn s * (rat_of_int ?M * pow2 ?e)\<bar> = ?a" by simp
  then have "\<bar>rat_of_int ?M * pow2 ?e\<bar> = ?a"
    using nz by (simp add: abs_mult abs_sgn_eq)
  moreover have "0 \<le> ?M"
  proof -
    have "0 \<le> ?a / pow2 ?e" using pow2_pos [of ?e] by simp
    then have "0 \<le> \<lfloor>?a / pow2 ?e\<rfloor>" by simp
    then show ?thesis by (simp add: round_half_even_def Let_def)
  qed
  ultimately have arep: "?a = rat_of_int ?M * pow2 ?e"
    using pow2_pos [of ?e] by (simp add: abs_mult)
  let ?cpu_times_1_7 = "floor_log2 ?a + k - 52"
  have cpu_times_1_7: "max (floor_log2 (pow2 k * ?a) - 52) (- 1074) = ?cpu_times_1_7"
    using under by (simp add: floor_log2_scale [OF apos])
  have le: "?cpu_times_1_7 \<le> ?e + k" by simp
  have "pow2 k * ?a / pow2 ?cpu_times_1_7 = rat_of_int ?M * (pow2 (?e + k) / pow2 ?cpu_times_1_7)"
    by (subst arep) (simp add: pow2_add mult.commute)
  also have "\<dots> = rat_of_int (?M * 2 ^ nat (?e + k - ?cpu_times_1_7))"
    by (simp only: pow2_diff_nat [OF le] of_int_mult)
  finally have quot: "pow2 k * ?a / pow2 ?cpu_times_1_7 = rat_of_int (?M * 2 ^ nat (?e + k - ?cpu_times_1_7))" .
  have "rat_of_int (round_half_even (pow2 k * ?a / pow2 ?cpu_times_1_7)) = pow2 k * ?a / pow2 ?cpu_times_1_7"
    by (simp only: quot round_half_even_of_int)
  then have r: "rat_of_int (round_half_even (pow2 k * ?a / pow2 ?cpu_times_1_7)) * pow2 ?cpu_times_1_7 = pow2 k * ?a"
    using pow2_pos [of ?cpu_times_1_7] by simp
  have abs2: "\<bar>pow2 k * s\<bar> = pow2 k * ?a"
    using pow2_pos [of k] by (simp add: abs_mult)
  have nz2: "pow2 k * s \<noteq> 0" using nz pow2_pos [of k] by simp
  have "fl (pow2 k * s) = Finite (sgn (pow2 k * s) * (pow2 k * ?a))"
    using over by (simp only: fl_def nz2 abs2 cpu_times_1_7 Let_def r if_False) simp
  also have "sgn (pow2 k * s) * (pow2 k * ?a) = pow2 k * s"
    using pow2_pos [of k] mult_sgn_abs [of s] by (simp add: sgn_mult mult.commute mult.left_commute)
  finally show ?thesis .
qed



lemma round_half_even_floor: "\<lfloor>x\<rfloor> \<le> round_half_even x"
  by (simp add: round_half_even_def Let_def)

lemma round_half_even_error:
  "\<bar>rat_of_int (round_half_even x) - x\<bar> \<le> 1 / 2"
proof -
  have f1: "rat_of_int \<lfloor>x\<rfloor> \<le> x" and f2: "x < rat_of_int \<lfloor>x\<rfloor> + 1"
    by (simp_all add: floor_less_cancel)
  show ?thesis
    unfolding round_half_even_def Let_def using f1 f2 by auto
qed

lemma floor_log2_mono:
  assumes "pow2 k \<le> q"
  shows "k \<le> floor_log2 q"
proof -
  from assms pow2_pos [of k] have pos: "0 < q" by simp
  from floor_log2_bounds [OF pos] assms have "pow2 k < pow2 (floor_log2 q + 1)" by simp
  then have "k < floor_log2 q + 1" by (simp only: pow2_less_iff)
  then show ?thesis by simp
qed

lemma floor_log2_less:
  assumes "0 < q" and "q < pow2 k"
  shows "floor_log2 q < k"
proof -
  from floor_log2_bounds [OF assms(1)] assms(2) have "pow2 (floor_log2 q) < pow2 k" by simp
  then show ?thesis by (simp only: pow2_less_iff)
qed

lemma fl_Finite_pos:
  assumes "0 < q" and "fl q = Finite r"
  shows "r = rat_of_int (round_half_even (q / pow2 (max (floor_log2 q - 52) (- 1074))))
               * pow2 (max (floor_log2 q - 52) (- 1074))"
  using assms by (simp add: fl_def Let_def split: if_splits)

lemma fl_grid:
  assumes lo: "pow2 k \<le> q" and under: "- 1074 \<le> k - 52" and fin: "fl q = Finite r"
  shows "\<exists>n. r = rat_of_int n * pow2 (k - 52)"
proof -
  from lo pow2_pos [of k] have pos: "0 < q" by simp
  let ?e = "max (floor_log2 q - 52) (- 1074)"
  have kk: "k \<le> floor_log2 q" using lo by (rule floor_log2_mono)
  then have e: "k - 52 \<le> ?e" by simp
  have "pow2 ?e = pow2 (?e - (k - 52)) * pow2 (k - 52)"
    by (simp flip: pow2_add)
  also have "pow2 (?e - (k - 52)) = rat_of_int (2 ^ nat (?e - (k - 52)))"
    using e by (simp add: pow2_nat)
  finally have "pow2 ?e = rat_of_int (2 ^ nat (?e - (k - 52))) * pow2 (k - 52)" .
  then have "r = rat_of_int (round_half_even (q / pow2 ?e) * 2 ^ nat (?e - (k - 52))) * pow2 (k - 52)"
    using fl_Finite_pos [OF pos fin] by (simp only: of_int_mult mult.assoc)
  then show ?thesis ..
qed

lemma fl_exact_grid:
  assumes x: "x = rat_of_int n * pow2 g" and small: "\<bar>x\<bar> < pow2 (g + 53)"
    and under: "- 1074 \<le> g" and over: "g + 53 \<le> 1024"
  shows "fl x = Finite x"
proof (cases "x = 0")
  case True
  then show ?thesis by (simp add: fl_def)
next
  case False
  let ?a = "\<bar>x\<bar>"
  let ?e = "max (floor_log2 ?a - 52) (- 1074)"
  from False have apos: "0 < ?a" by simp
  have a: "?a = rat_of_int \<bar>n\<bar> * pow2 g"
    using pow2_pos [of g] by (simp add: x abs_mult)
  have "floor_log2 ?a < g + 53" using apos small by (rule floor_log2_less)
  then have e: "?e \<le> g" using under by simp
  have "?a / pow2 ?e = rat_of_int \<bar>n\<bar> * (pow2 g / pow2 ?e)"
    by (simp add: a)
  also have "\<dots> = rat_of_int (\<bar>n\<bar> * 2 ^ nat (g - ?e))"
    by (simp only: pow2_diff_nat [OF e] of_int_mult)
  finally have quot: "?a / pow2 ?e = rat_of_int (\<bar>n\<bar> * 2 ^ nat (g - ?e))" .
  have "rat_of_int (round_half_even (?a / pow2 ?e)) = ?a / pow2 ?e"
    by (simp only: quot round_half_even_of_int)
  then have r: "rat_of_int (round_half_even (?a / pow2 ?e)) * pow2 ?e = ?a"
    using pow2_pos [of ?e] by simp
  have "pow2 (g + 53) \<le> pow2 1024"
    using over pow2_less_iff [of 1024 "g + 53"] by (simp add: not_less [symmetric])
  with small have fin: "\<not> pow2 1024 \<le> ?a" by simp
  have "fl x = Finite (sgn x * ?a)"
    using fin by (simp only: fl_def False Let_def r if_False)
  then show ?thesis by (simp add: mult_sgn_abs)
qed

lemma fl_big:
  assumes lo: "pow2 k \<le> \<bar>x\<bar>" and under: "- 1074 \<le> k - 52" and fin: "fl x = Finite d"
  shows "pow2 k \<le> \<bar>d\<bar>"
proof -
  let ?a = "\<bar>x\<bar>"
  let ?k = "floor_log2 ?a"
  let ?e = "max (?k - 52) (- 1074)"
  let ?M = "round_half_even (?a / pow2 ?e)"
  from lo pow2_pos [of k] have apos: "0 < ?a" by simp
  then have nz: "x \<noteq> 0" by simp
  have kk: "k \<le> ?k" using lo by (rule floor_log2_mono)
  then have e: "?e = ?k - 52" using under by simp
  have d: "d = sgn x * (rat_of_int ?M * pow2 ?e)"
    using fin nz by (simp add: fl_def Let_def split: if_splits)
  from floor_log2_bounds [OF apos] have "pow2 ?k \<le> ?a" by simp
  then have "pow2 ?k / pow2 ?e \<le> ?a / pow2 ?e"
    using pow2_pos [of ?e] by (simp add: divide_right_mono)
  moreover have "pow2 ?k / pow2 ?e = rat_of_int (2 ^ 52)"
    using pow2_diff_nat [of ?e ?k] by (simp add: e)
  ultimately have "rat_of_int (2 ^ 52) \<le> ?a / pow2 ?e" by simp
  then have "2 ^ 52 \<le> \<lfloor>?a / pow2 ?e\<rfloor>" by (simp only: le_floor_iff)
  then have M: "2 ^ 52 \<le> ?M"
    using round_half_even_floor [of "?a / pow2 ?e"] by (rule order_trans)
  then have "rat_of_int (2 ^ 52) \<le> rat_of_int ?M" by (simp only: of_int_le_iff)
  then have "rat_of_int (2 ^ 52) * pow2 ?e \<le> rat_of_int ?M * pow2 ?e"
    using pow2_pos [of ?e] by (simp only: mult_le_cancel_right) simp
  moreover have "rat_of_int (2 ^ 52) * pow2 ?e = pow2 ?k"
    using pow2_add [of 52 ?e] by (simp add: e pow2_nat)
  ultimately have r: "pow2 ?k \<le> rat_of_int ?M * pow2 ?e" by simp
  have "pow2 k \<le> pow2 ?k"
    using kk pow2_less_iff [of ?k k] by (simp add: not_less [symmetric])
  with r have "pow2 k \<le> rat_of_int ?M * pow2 ?e" by simp
  moreover have "\<bar>d\<bar> = \<bar>rat_of_int ?M * pow2 ?e\<bar>"
    using nz by (simp add: d abs_mult abs_sgn_eq)
  ultimately show ?thesis by linarith
qed


lemma fl_dyadic:
  assumes qd: "quotient_of q = (n, d)" and n: "\<bar>n\<bar> < 2 ^ 53"
    and j: "bitlen d \<le> 1075" and d: "d = 2 ^ nat (bitlen d - 1)"
  shows "fl q = Finite q"
proof -
  from qd have dpos: "0 < d" by (rule quotient_of_denom_pos)
  then have b1: "1 \<le> bitlen d" by (auto simp: bitlen_alt_def)
  let ?g = "- (bitlen d - 1)"
  have "rat_of_int d = rat_of_int (2 ^ nat (bitlen d - 1))"
    using d by simp
  then have dd: "rat_of_int d = pow2 (bitlen d - 1)"
    using b1 by (simp add: pow2_nat)
  have "pow2 ?g * pow2 (bitlen d - 1) = 1"
    by (simp flip: pow2_add add: pow2_def)
  then have inv: "1 / pow2 (bitlen d - 1) = pow2 ?g"
    using pow2_pos [of "bitlen d - 1"] by (simp add: field_simps)
  have "q = rat_of_int n * (1 / pow2 (bitlen d - 1))"
    using quotient_of_div [OF qd] by (simp add: dd)
  then have q: "q = rat_of_int n * pow2 ?g"
    by (simp only: inv)
  have "\<bar>q\<bar> = rat_of_int \<bar>n\<bar> * pow2 ?g"
    using pow2_pos [of ?g] by (simp add: q abs_mult)
  also have "\<dots> < rat_of_int (2 ^ 53) * pow2 ?g"
    using n pow2_pos [of ?g] by (simp only: mult_less_cancel_right of_int_less_iff) simp
  also have "\<dots> = pow2 (?g + 53)"
    using pow2_add [of 53 ?g] by (simp add: pow2_nat add.commute)
  finally have small: "\<bar>q\<bar> < pow2 (?g + 53)" .
  show ?thesis
    using q small by (rule fl_exact_grid) (use j b1 in simp_all)
qed

lemma fl_fast [code]:
  "fl q =
     (case quotient_of q of
        (n, d) \<Rightarrow>
          if \<bar>n\<bar> < 9007199254740992 \<and> bitlen d \<le> 1075 \<and> d = 2 ^ nat (bitlen d - 1) then Finite q
          else if q = 0 then Finite 0
          else let a = \<bar>q\<bar>;
               e = max (floor_log2 a - 52) (- 1074);
               r = rat_of_int (round_half_even (a / pow2 e)) * pow2 e
           in if 179769313486231590772930519078902473361797697894230657273430081157732675805500963132708477322407536021120113879871393357658789768814416622492847430639474124377767893424865485276302219601246094119453082952085005768838150682342462881473913110540827237163350510684586298239947245938479716304835356329624224137216 \<le> r
              then NonFinite else Finite (sgn q * r))"
proof (cases "quotient_of q")
  case (Pair n d)
  show ?thesis
  proof (cases "\<bar>n\<bar> < 9007199254740992 \<and> bitlen d \<le> 1075 \<and> d = 2 ^ nat (bitlen d - 1)")
    case True
    then have "fl q = Finite q"
      using fl_dyadic [OF Pair] by simp
    with True show ?thesis by (simp add: Pair)
  next
    case False
    show ?thesis
      unfolding Pair prod.case if_not_P [OF False] by (rule fl_code)
  qed
qed

lemma to_double_Num: "to_double q = Num r \<longleftrightarrow> fl q = Finite r"
  by (simp add: to_double_def split: number.splits)

lemma is_double_to_double: "is_double q \<Longrightarrow> to_double q = Num q"
  by (simp add: to_double_def is_double_def)

lemma to_double_cases:
  "(\<exists>r. to_double q = Num r) \<or> to_double q = PlusInfinity \<or> to_double q = MinusInfinity"
  by (simp add: to_double_def split: number.splits)

lemma compare_on_grid:
  assumes hc: "hc = rat_of_int n * pow2 (- 48)" and tc: "tc = rat_of_int m * pow2 (- 48)"
    and t: "t < 16"
  shows "le_d (Math_abs (sub_d (Num hc) (Num tc))) (Num t) \<longleftrightarrow> \<bar>hc - tc\<bar> \<le> t"
proof -
  let ?x = "hc - tc"
  have x: "?x = rat_of_int (n - m) * pow2 (- 48)"
    by (simp add: hc tc algebra_simps)
  have sub: "sub_d (Num hc) (Num tc) = to_double ?x"
    by (simp add: sub_d_def)
  show ?thesis
  proof (cases "\<bar>?x\<bar> < pow2 5")
    case True
    have "fl ?x = Finite ?x"
      using x True fl_exact_grid [where x = ?x and n = "n - m" and g = "- 48"] by simp
    then have "to_double ?x = Num ?x" by (simp add: to_double_def)
    then show ?thesis by (simp add: sub)
  next
    case False
    then have big: "pow2 4 \<le> \<bar>?x\<bar>" by (simp add: pow2_def)
    then have no: "\<not> \<bar>?x\<bar> \<le> t" using t by (simp add: pow2_def)
    have "\<not> le_d (Math_abs (to_double ?x)) (Num t)"
    proof (cases "fl ?x")
      case (Finite d)
      have "pow2 4 \<le> \<bar>d\<bar>" using big _ Finite by (rule fl_big) simp
      then show ?thesis using t by (simp add: to_double_def Finite pow2_def)
    next
      case NonFinite
      then show ?thesis by (simp add: to_double_def)
    qed
    with no show ?thesis by (simp add: sub)
  qed
qed

lemma centre_on_grid:
  assumes "0 \<le> s" and "16 \<le> h" and "add_d (Num s) (Num h) = Num c"
  shows "\<exists>n. c = rat_of_int n * pow2 (- 48)"
proof -
  from assms(3) have fin: "fl (s + h) = Finite c" by (simp add: to_double_Num)
  have lo: "pow2 4 \<le> s + h" using assms(1,2) by (simp add: pow2_def)
  from fl_grid [OF lo _ fin] show ?thesis by simp
qed

lemma infinite_centre:
  assumes "x = PlusInfinity \<or> x = MinusInfinity"
  shows "\<not> le_d (Math_abs (sub_d x (Num tc))) (Num t)"
  using assms by (auto simp: sub_d_def)

lemma fl_Finite_bound:
  assumes "fl q = Finite d"
  shows "\<bar>d\<bar> < pow2 1024"
proof (cases "q = 0")
  case True
  with assms pow2_pos [of 1024] show ?thesis by (simp add: fl_def)
next
  case False
  let ?e = "max (floor_log2 \<bar>q\<bar> - 52) (- 1074)"
  let ?r = "rat_of_int (round_half_even (\<bar>q\<bar> / pow2 ?e)) * pow2 ?e"
  from assms False have r: "?r < pow2 1024" and d: "d = sgn q * ?r"
    by (simp_all add: fl_def Let_def not_le split: if_splits)
  have "0 \<le> \<bar>q\<bar> / pow2 ?e" using pow2_pos [of ?e] by simp
  then have "0 \<le> \<lfloor>\<bar>q\<bar> / pow2 ?e\<rfloor>" by simp
  then have "0 \<le> round_half_even (\<bar>q\<bar> / pow2 ?e)"
    using round_half_even_floor [of "\<bar>q\<bar> / pow2 ?e"] by (rule order_trans)
  then have "\<bar>d\<bar> = ?r" using False pow2_pos [of ?e] by (simp add: d abs_mult abs_sgn_eq)
  with r show ?thesis by simp
qed

lemma to_double_overflow:
  assumes "pow2 1024 \<le> q"
  shows "to_double q = PlusInfinity"
proof (cases "fl q")
  case (Finite d)
  from assms pow2_pos [of 1024] have "pow2 1024 \<le> \<bar>q\<bar>" by simp
  then have "pow2 1024 \<le> \<bar>d\<bar>" using _ Finite by (rule fl_big) simp
  with fl_Finite_bound [OF Finite] show ?thesis by simp
next
  case NonFinite
  from assms pow2_pos [of 1024] have "0 < q" by simp
  with NonFinite show ?thesis by (simp add: to_double_def)
qed


lemma round_to_grid_above:
  assumes lo: "pow2 (- 1022) \<le> q"
  shows "rat_of_int (round_half_even (q / pow2 (max (floor_log2 q - 52) (- 1074))))
           * pow2 (max (floor_log2 q - 52) (- 1074)) \<le> q + q / 2 ^ 53"
proof -
  let ?k = "floor_log2 q"
  let ?e = "?k - 52"
  let ?M = "round_half_even (q / pow2 ?e)"
  from lo pow2_pos [of "- 1022"] have pos: "0 < q" by simp
  have "- 1022 \<le> ?k" using lo by (rule floor_log2_mono)
  then have e: "max (?k - 52) (- 1074) = ?e" by simp
  have "rat_of_int ?M \<le> q / pow2 ?e + 1 / 2"
    using round_half_even_error [of "q / pow2 ?e"] by linarith
  then have "rat_of_int ?M * pow2 ?e \<le> (q / pow2 ?e + 1 / 2) * pow2 ?e"
    using pow2_pos [of ?e] by (simp only: mult_le_cancel_right) simp
  also have "\<dots> = q + pow2 ?e / 2"
    using pow2_pos [of ?e] by (simp add: field_simps)
  finally have r: "rat_of_int ?M * pow2 ?e \<le> q + pow2 ?e / 2" .
  have "pow2 ?k = 2 ^ 52 * pow2 ?e"
    using pow2_add [of 52 ?e] by (simp add: pow2_nat)
  moreover from floor_log2_bounds [OF pos] have "pow2 ?k \<le> q" by simp
  ultimately have half: "pow2 ?e / 2 \<le> q / 2 ^ 53" by simp
  show ?thesis unfolding e using r half by linarith
qed

lemma to_double_above:
  assumes lo: "pow2 (- 1022) \<le> q" and hi: "q + q / 2 ^ 53 < pow2 1024"
  shows "\<exists>r. to_double q = Num r \<and> r \<le> q + q / 2 ^ 53"
proof -
  from lo pow2_pos [of "- 1022"] have pos: "0 < q" by simp
  let ?r = "rat_of_int (round_half_even (q / pow2 (max (floor_log2 q - 52) (- 1074))))
           * pow2 (max (floor_log2 q - 52) (- 1074))"
  have r: "?r \<le> q + q / 2 ^ 53" using lo by (rule round_to_grid_above)
  with hi have "\<not> pow2 1024 \<le> ?r" by simp
  then have "fl q = Finite ?r" using pos by (simp add: fl_def Let_def)
  then have "to_double q = Num ?r" by (simp add: to_double_def)
  with r show ?thesis by blast
qed

lemma to_double_not_NaN: "to_double q \<noteq> NaN"
  by (simp add: to_double_def split: number.splits)

lemma sub_d_not_NaN: "x \<noteq> NaN \<Longrightarrow> sub_d x (Num b) \<noteq> NaN"
  by (cases x) (simp_all add: sub_d_def to_double_not_NaN)

lemma clamp_range:
  assumes "y \<noteq> NaN" and "0 \<le> w"
  shows "\<exists>s. Math_max_d (Num 0) (Math_min_d (Num w) y) = Num s \<and> 0 \<le> s \<and> s \<le> w"
  using assms by (cases y) (auto simp: Math_max_d_def Math_min_d_def)

section \<open>The evaluator's snapshot\<close>

lemma Math_max_Max: "Math_max t ts = Max (set (t # ts))"
  unfolding Math_max_def by (rule Max.set_eq_fold [symmetric])

lemma Math_ceil_div_pos: "0 < Math_ceil_div x 1000 \<longleftrightarrow> 0 < x"
  by (simp add: Math_ceil_div_def)

lemma max_Math_ceil_div:
  "max 0 (Math_ceil_div x 1000) = (if 0 < x then Math_ceil_div x 1000 else 0)"
  using Math_ceil_div_pos [of x] by (auto simp: max_def)

lemma snapshot_unfolded:
  "snapshot now w =
     (let d = now - (case w of [] \<Rightarrow> 0 | t # ts \<Rightarrow> Max (set (t # ts)))
      in \<lparr> isLimited = (d < 10000 \<or> length w \<ge> 3),
           remainingTime = (if d < 10000 then Math_ceil_div (10000 - d) 1000 else 0),
           appliesInLastMinute = length w \<rparr>)"
  by (simp add: snapshot_def Let_def RECOMMENDED_COOLDOWN_def APPLY_LIMIT_PER_15MINUTES_def
      Math_max_Max del: Max_insert set_simps split: list.split)

lemma snapshot_formula:
  "snapshot now w =
     (let lastAttempt = (if w = [] then 0 else Max (set w));
          cooldownRemaining = max 0 (Math_ceil_div (10 * 1000 - (now - lastAttempt)) 1000)
      in \<lparr> isLimited = (cooldownRemaining > 0 \<or> length w \<ge> 3),
           remainingTime = cooldownRemaining,
           appliesInLastMinute = length w \<rparr>)"
proof -
  have last: "(case w of [] \<Rightarrow> 0 | t # ts \<Rightarrow> Max (set (t # ts))) = (if w = [] then 0 else Max (set w))"
    by (cases w) simp_all
  show ?thesis
    unfolding snapshot_unfolded last Let_def max_Math_ceil_div
    by (simp add: Math_ceil_div_pos)
qed

lemma window_filter:
  "filter (\<lambda>timestamp. now - 15 * 60 * 1000 < timestamp) ledger = filter (\<lambda>t. now - t < 15 * 60 * 1000) (ledger :: int list)"
  by (rule filter_cong) auto

text \<open>
  C4, amended. For every ledger and every clock reading \<open>now\<close>, the evaluation keeps the
  time stamps \<open>t\<close> with \<open>now - t < 15 minutes\<close>, counts them, takes as last attempt their
  maximum, or 0 (the epoch) when there is none, leaves
  \<open>max(0, ceil((10 * 1000 - (now - lastAttempt)) / 1000))\<close> seconds of cooldown, and is limited
  if and only if that is positive or the count is at least 3.
\<close>

theorem updateRateLimitInfo_snapshot:
  "updateRateLimitInfo now (s\<lparr> localStorage := JSON_array ledger \<rparr>) =
     (let windowAttempts = filter (\<lambda>t. now - t < 15 * 60 * 1000) ledger;
          lastAttempt = (if windowAttempts = [] then 0 else Max (set windowAttempts));
          cooldownRemaining = max 0 (Math_ceil_div (10 * 1000 - (now - lastAttempt)) 1000)
      in Inr (s\<lparr> localStorage := JSON_array windowAttempts,
                 rateLimitInfo :=
                   \<lparr> isLimited = (cooldownRemaining > 0 \<or> length windowAttempts \<ge> 3),
                     remainingTime = cooldownRemaining,
                     appliesInLastMinute = length windowAttempts \<rparr> \<rparr>))"
proof -
  have "updateRateLimitInfo now (s\<lparr> localStorage := JSON_array ledger \<rparr>) =
      Inr (s\<lparr> localStorage := JSON_array (filter (\<lambda>t. now - t < 15 * 60 * 1000) ledger),
              rateLimitInfo := snapshot now (filter (\<lambda>t. now - t < 15 * 60 * 1000) ledger) \<rparr>)"
    using window_filter [of now ledger]
    by (simp add: updateRateLimitInfo_def read_recentApplies_def Let_def)
  then show ?thesis
    by (simp only: snapshot_formula Let_def)
qed

theorem updateRateLimitInfo_snapshot_witness:
  "updateRateLimitInfo 1003000 ((initial_state No_item 0)\<lparr> localStorage := JSON_array [0, 999000, 1000000] \<rparr>) =
     Inr ((initial_state No_item 0)\<lparr> localStorage := JSON_array [999000, 1000000],
            rateLimitInfo := \<lparr> isLimited = True, remainingTime = 7, appliesInLastMinute = 2 \<rparr> \<rparr>)"
  using updateRateLimitInfo_snapshot
    [where now = 1003000 and s = "initial_state No_item 0" and ledger = "[0, 999000, 1000000]"]
  by (simp add: Math_ceil_div_def)

text \<open>
  C4 as stated, with minus infinity for the empty window, fails five seconds after the
  epoch: the code reports five seconds of cooldown on an empty ledger, the
  specification's evaluator none.
\<close>

theorem spec_evaluate_counterexample:
  "isLimited (rateLimitInfo (tick 5000 (initial_state (JSON_array []) 5000)))
   \<and> remainingTime (rateLimitInfo (tick 5000 (initial_state (JSON_array []) 5000))) = 5
   \<and> \<not> isLimited (spec_evaluate [] 5000)
   \<and> remainingTime (spec_evaluate [] 5000) = 0"
  by (simp add: tick_def updateRateLimitInfo_def initial_state_def read_recentApplies_def
      snapshot_def RECOMMENDED_COOLDOWN_def Math_ceil_div_def spec_evaluate_def spec_window_def)

lemma read_empty:
  "item = No_item \<or> item = Empty_text \<or> item = JSON_array [] \<Longrightarrow> read_recentApplies item a = Inr []"
  by (auto simp: read_recentApplies_def)

lemma snapshot_Nil:
  "snapshot now [] =
     \<lparr> isLimited = (now < 10000),
       remainingTime = (if now < 10000 then Math_ceil_div (10000 - (now - 0)) 1000 else 0),
       appliesInLastMinute = 0 \<rparr>"
  by (simp add: snapshot_def RECOMMENDED_COOLDOWN_def APPLY_LIMIT_PER_15MINUTES_def)

text \<open>
  C9. On an empty or missing ledger the evaluator takes 0 as the time of the last
  attempt: it reports a cooldown exactly when \<open>now\<close> is below 10000 ms, so from 10000 ms
  on the snapshot is not limited, with no remaining time and no attempts.
\<close>

theorem empty_ledger_uses_epoch:
  "item = No_item \<or> item = Empty_text \<or> item = JSON_array [] \<Longrightarrow>
     updateRateLimitInfo now (s\<lparr> localStorage := item \<rparr>) =
       Inr (s\<lparr> localStorage := JSON_array [],
               rateLimitInfo :=
                 \<lparr> isLimited = (now < 10000),
                   remainingTime = (if now < 10000 then Math_ceil_div (10000 - (now - 0)) 1000 else 0),
                   appliesInLastMinute = 0 \<rparr> \<rparr>)
     \<and> (10000 \<le> now \<longrightarrow>
          rateLimitInfo (tick now (s\<lparr> localStorage := item \<rparr>)) =
            \<lparr> isLimited = False, remainingTime = 0, appliesInLastMinute = 0 \<rparr>)
     \<and> (now < 10000 \<longrightarrow>
          isLimited (rateLimitInfo (tick now (s\<lparr> localStorage := item \<rparr>)))
          \<and> 0 < remainingTime (rateLimitInfo (tick now (s\<lparr> localStorage := item \<rparr>))))"
proof -
  assume item: "item = No_item \<or> item = Empty_text \<or> item = JSON_array []"
  have upd: "updateRateLimitInfo now (s\<lparr> localStorage := item \<rparr>) =
      Inr (s\<lparr> localStorage := JSON_array [], rateLimitInfo := snapshot now [] \<rparr>)"
    by (simp add: updateRateLimitInfo_def read_empty [OF item])
  have pos: "now < 10000 \<Longrightarrow> 0 < Math_ceil_div (10000 - (now - 0)) 1000"
    by (simp add: Math_ceil_div_pos)
  show ?thesis
    using pos by (simp add: upd tick_def snapshot_Nil)
qed

theorem empty_ledger_uses_epoch_witness:
  "rateLimitInfo (tick 1700000000000 ((initial_state No_item 1700000000000)\<lparr> localStorage := No_item \<rparr>)) =
     \<lparr> isLimited = False, remainingTime = 0, appliesInLastMinute = 0 \<rparr>
   \<and> isLimited (rateLimitInfo (tick 4000 ((initial_state Empty_text 4000)\<lparr> localStorage := Empty_text \<rparr>)))"
  using empty_ledger_uses_epoch
      [where item = No_item and now = 1700000000000 and s = "initial_state No_item 1700000000000"]
    empty_ledger_uses_epoch
      [where item = Empty_text and now = 4000 and s = "initial_state Empty_text 4000"]
  by simp


section \<open>The tick and the ledger\<close>

lemma read_readable:
  "readable item \<Longrightarrow>
     read_recentApplies item a = Inr (filter (\<lambda>timestamp. a < timestamp) (stored_timestamps item))"
  by (cases item) (simp_all add: read_recentApplies_def)

lemma read_unreadable: "\<not> readable item \<Longrightarrow> \<exists>e. read_recentApplies item a = Inl e"
  by (cases item) (simp_all add: read_recentApplies_def)

lemma tick_readable:
  "readable (localStorage s) \<Longrightarrow>
     tick now s =
       s\<lparr> localStorage := JSON_array (filter (\<lambda>t. now - 15 * 60 * 1000 < t) (stored_timestamps (localStorage s))),
          rateLimitInfo := snapshot now (filter (\<lambda>t. now - 15 * 60 * 1000 < t) (stored_timestamps (localStorage s))) \<rparr>"
  by (simp add: tick_def updateRateLimitInfo_def read_readable Let_def)

lemma tick_unreadable: "\<not> readable (localStorage s) \<Longrightarrow> tick now s = s"
  using read_unreadable [of "localStorage s" "now - 15 * 60 * 1000"]
  by (auto simp: tick_def updateRateLimitInfo_def Let_def)

lemma tick_idem: "tick now (tick now s) = tick now s"
proof (cases "readable (localStorage s)")
  case True
  then show ?thesis by (simp add: tick_readable)
next
  case False
  then show ?thesis by (simp add: tick_unreadable)
qed

lemma begin_store: "localStorage (fst (applyChanges_begin s)) = localStorage s"
  by (simp add: applyChanges_begin_def)

lemma tick_subset:
  "set (stored_timestamps (localStorage (tick now s))) \<subseteq> set (stored_timestamps (localStorage s))"
  by (cases "readable (localStorage s)") (auto simp: tick_readable tick_unreadable)

lemma react_adds_nothing:
  "\<not> settles e \<Longrightarrow> \<not> external e \<Longrightarrow>
     set (stored_timestamps (localStorage (app (react e p))))
       \<subseteq> set (stored_timestamps (localStorage (app p)))"
proof (cases e)
  case (Tick now)
  then show ?thesis using tick_subset by simp
next
  case ClickApply
  then show ?thesis
    using begin_store [of "app p"] by (auto split: prod.splits option.splits)
qed (auto simp: countdown_def handleScaleChange_def resetAll_def split: prod.splits)

text \<open>
  C3, amended. A tick of the evaluator does write the store: it writes back the ledger
  pruned to the window, and nothing else. It never adds a time stamp; on a store it
  cannot read it changes nothing; a second tick at the same clock reading changes
  nothing more. No event of the page other than the settling of a request adds a time
  stamp to the ledger, writes from outside the page apart.
\<close>

theorem tick_only_prunes:
  "(readable (localStorage s) \<longrightarrow>
      localStorage (tick now s) =
        JSON_array (filter (\<lambda>t. now - 15 * 60 * 1000 < t) (stored_timestamps (localStorage s))))
   \<and> (\<not> readable (localStorage s) \<longrightarrow> tick now s = s)
   \<and> tick now (tick now s) = tick now s
   \<and> (\<not> settles e \<and> \<not> external e \<longrightarrow>
        set (stored_timestamps (localStorage (app (react e p))))
          \<subseteq> set (stored_timestamps (localStorage (app p))))"
  using tick_idem react_adds_nothing by (simp add: tick_readable tick_unreadable)

theorem tick_only_prunes_witness:
  "localStorage (tick 1700000600000 (initial_state (JSON_array [1699999000000, 1700000000000]) 1700000600000))
     = JSON_array [1700000000000]
   \<and> tick 5 (initial_state JSON_other 5) = initial_state JSON_other 5
   \<and> set (stored_timestamps (localStorage (app (react ClickApply (initial_page (JSON_array [7]) 5 (1 / 2) 340)))))
       \<subseteq> set (stored_timestamps (localStorage (app (initial_page (JSON_array [7]) 5 (1 / 2) 340))))"
  using tick_only_prunes
      [where s = "initial_state (JSON_array [1699999000000, 1700000000000]) 1700000600000"
         and now = 1700000600000 and e = ClickApply
         and p = "initial_page (JSON_array [7]) 5 (1 / 2) 340"]
    tick_only_prunes
      [where s = "initial_state JSON_other 5" and now = 5 and e = ClickApply
         and p = "initial_page (JSON_array [7]) 5 (1 / 2) 340"]
  by (simp add: initial_state_def)

text \<open>
  C3 as stated fails: a tick rewrites a store that holds an expired time stamp, and
  creates the item where there was none.
\<close>

theorem tick_writes_counterexample:
  "localStorage (initial_state (JSON_array [1699999000000]) 1700000600000) = JSON_array [1699999000000]
   \<and> localStorage (tick 1700000600000 (initial_state (JSON_array [1699999000000]) 1700000600000)) = JSON_array []
   \<and> localStorage (tick 1700000600000 (initial_state No_item 1700000600000)) = JSON_array []"
  by (simp add: tick_def updateRateLimitInfo_def read_recentApplies_def initial_state_def)

section \<open>Who writes the ledger\<close>

lemma update_readable: "readable (localStorage s) \<Longrightarrow> updateRateLimitInfo now s = Inr (tick now s)"
  by (simp add: tick_def updateRateLimitInfo_def read_readable Let_def)

lemma success_branch_readable:
  assumes "readable (localStorage s)"
  shows "success_branch m now now2 s =
       (tick now2
          (s\<lparr> appliedMetrics := m, lastApplied := now,
              localStorage :=
                JSON_array (filter (\<lambda>t. now - 15 * 60 * 1000 < t) (stored_timestamps (localStorage s)) @ [now]),
              isCaptchaVerified := False, captchaKey := captchaKey s + 1, showGrafanaButton := True \<rparr>),
        None)"
proof -
  have rd: "read_recentApplies (localStorage (s\<lparr> appliedMetrics := m, lastApplied := now \<rparr>)) (now - 15 * 60 * 1000)
      = Inr (filter (\<lambda>t. now - 15 * 60 * 1000 < t) (stored_timestamps (localStorage s)))"
    using read_readable [OF assms] by simp
  show ?thesis
    unfolding success_branch_def Let_def rd
    by (simp add: update_readable)
qed

lemma success_branch_unreadable:
  "\<not> readable (localStorage s) \<Longrightarrow>
     \<exists>e. success_branch m now now2 s = (s\<lparr> appliedMetrics := m, lastApplied := now \<rparr>, Some e)"
  using read_unreadable [of "localStorage s" "now - 15 * 60 * 1000"]
  by (auto simp: success_branch_def Let_def)

lemma settle_failure:
  "\<not> resolves_2xx result \<Longrightarrow>
     \<exists>e. applyChanges_settle result m now now2 s =
       s\<lparr> lastError := Some (catch_message e), isApplying := False \<rparr>"
  by (cases result) (auto simp: applyChanges_settle_def try_after_fetch_def)

lemma settle_success_readable:
  "resolves_2xx result \<Longrightarrow> readable (localStorage s) \<Longrightarrow>
     applyChanges_settle result m now now2 s =
       (tick now2
          (s\<lparr> appliedMetrics := m, lastApplied := now,
              localStorage :=
                JSON_array (filter (\<lambda>t. now - 15 * 60 * 1000 < t) (stored_timestamps (localStorage s)) @ [now]),
              isCaptchaVerified := False, captchaKey := captchaKey s + 1, showGrafanaButton := True \<rparr>))
         \<lparr> isApplying := False \<rparr>"
  by (cases result) (auto simp: applyChanges_settle_def try_after_fetch_def success_branch_readable)

lemma settle_success_unreadable:
  "resolves_2xx result \<Longrightarrow> \<not> readable (localStorage s) \<Longrightarrow>
     \<exists>e. applyChanges_settle result m now now2 s =
       s\<lparr> appliedMetrics := m, lastApplied := now, lastError := Some (catch_message e),
          isApplying := False \<rparr>"
  using success_branch_unreadable [of s m now now2]
  by (cases result) (auto simp: applyChanges_settle_def try_after_fetch_def)

text \<open>
  C1, amended. The part of \<open>applyChanges\<close> before the request never touches the ledger,
  so a call rejected locally leaves it as it is. When the request settles, a failure
  (a status outside 2xx, a timeout, a transport error) leaves the ledger as it is too.
  The time stamp \<open>now\<close> is appended, after pruning, if and only if the request resolves
  with a 2xx status and the stored ledger can be read (no item, the empty text or an
  array); the closing evaluation then prunes once more.
\<close>

theorem ledger_charged_only_on_success:
  "localStorage (fst (applyChanges_begin s)) = localStorage s
   \<and> localStorage (applyChanges_settle result m now now2 s) =
       (if resolves_2xx result \<and> readable (localStorage s)
        then JSON_array (filter (\<lambda>t. now2 - 15 * 60 * 1000 < t)
               (filter (\<lambda>t. now - 15 * 60 * 1000 < t) (stored_timestamps (localStorage s)) @ [now]))
        else localStorage s)"
proof -
  have begun: "localStorage (fst (applyChanges_begin s)) = localStorage s"
    by (rule begin_store)
  have settled: "localStorage (applyChanges_settle result m now now2 s) =
       (if resolves_2xx result \<and> readable (localStorage s)
        then JSON_array (filter (\<lambda>t. now2 - 15 * 60 * 1000 < t)
               (filter (\<lambda>t. now - 15 * 60 * 1000 < t) (stored_timestamps (localStorage s)) @ [now]))
        else localStorage s)"
  proof (cases "resolves_2xx result")
    case False
    then show ?thesis using settle_failure [OF False, of m now now2 s] by auto
  next
    case True
    show ?thesis
    proof (cases "readable (localStorage s)")
      case r: True
      show ?thesis
        by (simp only: settle_success_readable [OF True r]) (simp add: tick_readable True r)
    next
      case r: False
      then show ?thesis using settle_success_unreadable [OF True r, of m now now2] by auto
    qed
  qed
  from begun settled show ?thesis by (rule conjI)
qed

theorem ledger_charged_only_on_success_witness:
  "localStorage (fst (applyChanges_begin (initial_state (JSON_array [1699999000000, 1700000000000]) 0)))
     = JSON_array [1699999000000, 1700000000000]
   \<and> localStorage (applyChanges_settle (Responded 200 (Data_text ''ok'')) initial_metrics
       1700000600000 1700000600000 (initial_state (JSON_array [1699999000000, 1700000000000]) 0))
     = JSON_array [1700000000000, 1700000600000]
   \<and> localStorage (applyChanges_settle (Responded 503 Data_null) initial_metrics
       1700000600000 1700000600000 (initial_state (JSON_array [1699999000000, 1700000000000]) 0))
     = JSON_array [1699999000000, 1700000000000]
   \<and> localStorage (applyChanges_settle (Rejected (Thrown TimeoutError ''signal timed out'')) initial_metrics
       1700000600000 1700000600000 (initial_state (JSON_array [1699999000000, 1700000000000]) 0))
     = JSON_array [1699999000000, 1700000000000]"
  using ledger_charged_only_on_success
      [where s = "initial_state (JSON_array [1699999000000, 1700000000000]) 0"
         and result = "Responded 200 (Data_text ''ok'')" and m = initial_metrics
         and now = 1700000600000 and ?now2.0 = 1700000600000]
    ledger_charged_only_on_success
      [where s = "initial_state (JSON_array [1699999000000, 1700000000000]) 0"
         and result = "Responded 503 Data_null" and m = initial_metrics
         and now = 1700000600000 and ?now2.0 = 1700000600000]
    ledger_charged_only_on_success
      [where s = "initial_state (JSON_array [1699999000000, 1700000000000]) 0"
         and result = "Rejected (Thrown TimeoutError ''signal timed out'')" and m = initial_metrics
         and now = 1700000600000 and ?now2.0 = 1700000600000]
  by (simp add: initial_state_def response_ok_def)

text \<open>
  C1 as stated fails once the store holds text which is not JSON (written there while
  the page is open): the request is sent, the server answers 200, the success branch
  runs (it sets \<open>lastApplied\<close>), and the ledger is left without the time stamp.
\<close>

theorem accepted_but_not_recorded_counterexample:
  "localStorage (app (run
      [StoreWritten (Not_JSON ''Unexpected token''), ScaleChange cpu_seconds_total 2,
       MouseDown, MouseMove (Some 0) 151, ClickApply,
       FetchSettles (Responded 200 (Data_text ''ok'')) 1700000000300 1700000000300 (1 / 2) 340]
      (initial_page No_item 1700000000000 (1 / 2) 340)))
     = Not_JSON ''Unexpected token''
   \<and> lastApplied (app (run
      [StoreWritten (Not_JSON ''Unexpected token''), ScaleChange cpu_seconds_total 2,
       MouseDown, MouseMove (Some 0) 151, ClickApply,
       FetchSettles (Responded 200 (Data_text ''ok'')) 1700000000300 1700000000300 (1 / 2) 340]
      (initial_page No_item 1700000000000 (1 / 2) 340)))
     = 1700000000300"
  by code_simp

text \<open>
  C5 as stated fails on corrupt data: on text that is not JSON the evaluator raises a
  SyntaxError, on JSON that is not an array a TypeError, and the success branch of the
  apply controller ends with the same exception.
\<close>

theorem corrupt_store_raises_counterexample:
  "updateRateLimitInfo 1700000000000 (initial_state (Not_JSON ''Unexpected token'') 1700000000000)
     = Inl (Thrown SyntaxError ''Unexpected token'')
   \<and> updateRateLimitInfo 1700000000000 (initial_state JSON_other 1700000000000)
     = Inl (Thrown TypeError ''filter is not a function'')
   \<and> snd (success_branch initial_metrics 1700000000000 1700000000000
            (initial_state (Not_JSON ''Unexpected token'') 1700000000000))
     = Some (Thrown SyntaxError ''Unexpected token'')"
  by (simp add: updateRateLimitInfo_def read_recentApplies_def initial_state_def success_branch_def)

text \<open>
  C5, amended. When the store holds no item, or the empty text, both readers take the
  ledger as empty and raise nothing: the evaluator counts zero attempts (and from
  10000 ms after the epoch on is not limited), and the success branch of the apply
  controller writes a ledger that holds the new time stamp alone.
\<close>

theorem missing_store_reads_empty:
  "item = No_item \<or> item = Empty_text \<Longrightarrow>
     updateRateLimitInfo now (s\<lparr> localStorage := item \<rparr>) =
       Inr (s\<lparr> localStorage := JSON_array [], rateLimitInfo := snapshot now [] \<rparr>)
     \<and> appliesInLastMinute (snapshot now []) = 0
     \<and> (10000 \<le> now \<longrightarrow> \<not> isLimited (snapshot now []))
     \<and> (response_ok status \<longrightarrow>
          snd (try_after_fetch (Responded status d) m now now2 (s\<lparr> localStorage := item \<rparr>)) = None
          \<and> localStorage (fst (try_after_fetch (Responded status d) m now now2 (s\<lparr> localStorage := item \<rparr>)))
              = JSON_array (filter (\<lambda>t. now2 - 15 * 60 * 1000 < t) [now]))"
proof -
  assume item: "item = No_item \<or> item = Empty_text"
  then have empty: "item = No_item \<or> item = Empty_text \<or> item = JSON_array []" by blast
  have r: "readable (localStorage (s\<lparr> localStorage := item \<rparr>))"
    using item by auto
  have ts: "stored_timestamps item = []"
    using item by auto
  have upd: "updateRateLimitInfo now (s\<lparr> localStorage := item \<rparr>) =
      Inr (s\<lparr> localStorage := JSON_array [], rateLimitInfo := snapshot now [] \<rparr>)"
    by (simp add: updateRateLimitInfo_def read_empty [OF empty])
  have branch: "response_ok status \<Longrightarrow>
      try_after_fetch (Responded status d) m now now2 (s\<lparr> localStorage := item \<rparr>) =
        success_branch m now now2 (s\<lparr> localStorage := item \<rparr>)"
    by (simp add: try_after_fetch_def)
  show ?thesis
    by (simp add: upd snapshot_Nil branch success_branch_readable [OF r] tick_readable ts)
qed

theorem missing_store_reads_empty_witness:
  "updateRateLimitInfo 1700000000000 ((initial_state No_item 0)\<lparr> localStorage := No_item \<rparr>) =
     Inr ((initial_state No_item 0)\<lparr> localStorage := JSON_array [],
            rateLimitInfo := \<lparr> isLimited = False, remainingTime = 0, appliesInLastMinute = 0 \<rparr> \<rparr>)
   \<and> localStorage (fst (try_after_fetch (Responded 200 Data_null) initial_metrics 1700000000000 1700000000001
         ((initial_state No_item 0)\<lparr> localStorage := Empty_text \<rparr>)))
       = JSON_array [1700000000000]"
  using missing_store_reads_empty
      [where item = No_item and now = 1700000000000 and s = "initial_state No_item 0"
         and status = 200 and d = Data_null and m = initial_metrics and ?now2.0 = 1700000000001]
    missing_store_reads_empty
      [where item = Empty_text and now = 1700000000000 and s = "initial_state No_item 0"
         and status = 200 and d = Data_null and m = initial_metrics and ?now2.0 = 1700000000001]
  by (simp add: snapshot_Nil response_ok_def)

section \<open>One request at a time\<close>

lemma tick_cases:
  "tick now s = s \<or>
   (\<exists>w. tick now s = s\<lparr> localStorage := JSON_array w, rateLimitInfo := snapshot now w \<rparr>)"
  by (cases "readable (localStorage s)") (auto simp: tick_readable tick_unreadable)

lemma isApplying_tick: "isApplying (tick now s) = isApplying s"
  using tick_cases [of now s] by auto

lemma isApplying_settle: "\<not> isApplying (applyChanges_settle result m now now2 s)"
  by (simp add: applyChanges_settle_def split: prod.splits option.splits)

lemma begin_enabled:
  "\<not> isApplyDisabled s \<Longrightarrow>
     applyChanges_begin s = (s\<lparr> isApplying := True, lastError := None \<rparr>, Some (newAppliedMetrics_of s))"
  by (simp add: isApplyDisabled_def applyChanges_begin_def)

lemma react_inflight:
  assumes "length (inflight p) \<le> 1" and "isApplying (app p) \<longleftrightarrow> inflight p \<noteq> []"
  shows "length (inflight (react e p)) \<le> 1
         \<and> (isApplying (app (react e p)) \<longleftrightarrow> inflight (react e p) \<noteq> [])"
proof (cases e)
  case (Tick now)
  with assms show ?thesis by (simp add: isApplying_tick)
next
  case ClickApply
  show ?thesis
  proof (cases "isApplyDisabled (app p)")
    case True
    with assms ClickApply show ?thesis by simp
  next
    case False
    then have "\<not> isApplying (app p)" by (simp add: isApplyDisabled_def)
    with assms have "inflight p = []" by simp
    with ClickApply False show ?thesis by (simp add: begin_enabled)
  qed
next
  case (FetchSettles result now now2 random offsetWidth)
  show ?thesis
  proof (cases "inflight p")
    case Nil
    with assms FetchSettles show ?thesis by simp
  next
    case (Cons m rest)
    with assms have "rest = []" by simp
    with Cons FetchSettles show ?thesis by (simp add: Let_def isApplying_settle)
  qed
qed (use assms in \<open>auto simp: countdown_def handleScaleChange_def resetAll_def split: prod.splits\<close>)

lemma reachable_inflight:
  "reachable p \<Longrightarrow> length (inflight p) \<le> 1 \<and> (isApplying (app p) \<longleftrightarrow> inflight p \<noteq> [])"
proof (induction rule: reachable.induct)
  case (start item now random offsetWidth)
  show ?case by (simp add: initial_page_def initial_state_def)
next
  case (step p e)
  then show ?case using react_inflight [of p e] by blast
qed

lemma reachable_run: "reachable p \<Longrightarrow> reachable (run es p)"
  by (induction es arbitrary: p) (auto intro: reachable.step)

text \<open>
  C2, amended. In every state the page can reach, at most one request is in flight, and
  \<open>isApplying\<close> holds exactly while one is. The exclusion is the button's: while a
  request is in flight the Apply button is disabled, and a click on it changes nothing
  and sends nothing. \<open>applyChanges\<close> itself has no check of \<open>isApplying\<close> and no outcome
  that says a call is already in progress.
\<close>

theorem one_request_in_flight:
  "reachable p \<Longrightarrow>
     length (inflight p) \<le> 1
     \<and> (isApplying (app p) \<longleftrightarrow> inflight p \<noteq> [])
     \<and> (inflight p \<noteq> [] \<longrightarrow> isApplyDisabled (app p) \<and> react ClickApply p = p)"
proof -
  assume "reachable p"
  then have inv: "length (inflight p) \<le> 1 \<and> (isApplying (app p) \<longleftrightarrow> inflight p \<noteq> [])"
    by (rule reachable_inflight)
  then show ?thesis by (auto simp: isApplyDisabled_def)
qed




theorem one_request_in_flight_witness:
  "length (inflight (run
      [ScaleChange cpu_seconds_total 2, MouseDown, MouseMove (Some 0) 151, ClickApply, ClickApply]
      (initial_page No_item 1700000000000 (1 / 2) 340))) = 1
   \<and> isApplyDisabled (app (run
      [ScaleChange cpu_seconds_total 2, MouseDown, MouseMove (Some 0) 151, ClickApply, ClickApply]
      (initial_page No_item 1700000000000 (1 / 2) 340)))"
proof -
  define p where "p = run
      [ScaleChange cpu_seconds_total 2, MouseDown, MouseMove (Some 0) 151, ClickApply, ClickApply]
      (initial_page No_item 1700000000000 (1 / 2) 340)"
  have r: "reachable p"
    unfolding p_def by (rule reachable_run [OF reachable.start]) simp
  have n: "length (inflight p) = 1"
    unfolding p_def by code_simp
  then have "inflight p \<noteq> []" by auto
  with one_request_in_flight [OF r] n show ?thesis
    unfolding p_def by blast
qed

text \<open>
  C2 as stated fails for the function: called a second time while its first request is
  in flight, \<open>applyChanges\<close> does not reject the call, it sends a second request.
\<close>

theorem second_call_sends_counterexample:
  "isApplying (app (run
      [ScaleChange cpu_seconds_total 2, MouseDown, MouseMove (Some 0) 151, ClickApply]
      (initial_page No_item 1700000000000 (1 / 2) 340)))
   \<and> length (inflight (run
      [ScaleChange cpu_seconds_total 2, MouseDown, MouseMove (Some 0) 151, ClickApply]
      (initial_page No_item 1700000000000 (1 / 2) 340))) = 1
   \<and> snd (applyChanges_begin (app (run
      [ScaleChange cpu_seconds_total 2, MouseDown, MouseMove (Some 0) 151, ClickApply]
      (initial_page No_item 1700000000000 (1 / 2) 340)))) \<noteq> None"
proof -
  define p where "p = run
      [ScaleChange cpu_seconds_total 2, MouseDown, MouseMove (Some 0) 151, ClickApply]
      (initial_page No_item 1700000000000 (1 / 2) 340)"
  have a: "isApplying (app p)"
    unfolding p_def by code_simp
  have n: "length (inflight p) = 1"
    unfolding p_def by code_simp
  have v: "isCaptchaVerified (app p)"
    unfolding p_def by code_simp
  have l: "\<not> isLimited (rateLimitInfo (app p))"
    unfolding p_def by code_simp
  have "snd (applyChanges_begin (app p)) \<noteq> None"
    using v l by (simp add: applyChanges_begin_def)
  with a n show ?thesis
    unfolding p_def by blast
qed

section \<open>Which rejection is shown\<close>

lemma snapshot_gates:
  "(0 < remainingTime (snapshot now w) \<or> APPLY_LIMIT_PER_15MINUTES \<le> appliesInLastMinute (snapshot now w)
      \<longrightarrow> isLimited (snapshot now w))
   \<and> 0 \<le> remainingTime (snapshot now w)"
  unfolding snapshot_formula Let_def
  by (simp add: APPLY_LIMIT_PER_15MINUTES_def)

lemma tick_rateLimitInfo:
  "rateLimitInfo (tick now s) = rateLimitInfo s \<or> (\<exists>w. rateLimitInfo (tick now s) = snapshot now w)"
  using tick_cases [of now s] by auto

lemma settle_rateLimitInfo:
  "rateLimitInfo (applyChanges_settle result m now now2 s) = rateLimitInfo s
   \<or> (\<exists>w. rateLimitInfo (applyChanges_settle result m now now2 s) = snapshot now2 w)"
proof (cases "resolves_2xx result")
  case False
  then show ?thesis using settle_failure [OF False, of m now now2 s] by auto
next
  case True
  show ?thesis
  proof (cases "readable (localStorage s)")
    case r: True
    show ?thesis
      using tick_rateLimitInfo [of now2 "s\<lparr> appliedMetrics := m, lastApplied := now,
              localStorage :=
                JSON_array (filter (\<lambda>t. now - 15 * 60 * 1000 < t) (stored_timestamps (localStorage s)) @ [now]),
              isCaptchaVerified := False, captchaKey := captchaKey s + 1, showGrafanaButton := True \<rparr>"]
      by (simp only: settle_success_readable [OF True r]) auto
  next
    case r: False
    then show ?thesis using settle_success_unreadable [OF True r, of m now now2] by auto
  qed
qed

lemma react_gates:
  assumes "(0 < remainingTime (rateLimitInfo (app p))
             \<or> APPLY_LIMIT_PER_15MINUTES \<le> appliesInLastMinute (rateLimitInfo (app p))
            \<longrightarrow> isLimited (rateLimitInfo (app p)))
           \<and> 0 \<le> remainingTime (rateLimitInfo (app p))"
  shows "(0 < remainingTime (rateLimitInfo (app (react e p)))
             \<or> APPLY_LIMIT_PER_15MINUTES \<le> appliesInLastMinute (rateLimitInfo (app (react e p)))
            \<longrightarrow> isLimited (rateLimitInfo (app (react e p))))
           \<and> 0 \<le> remainingTime (rateLimitInfo (app (react e p)))"
proof (cases e)
  case (Tick now)
  then show ?thesis
    using assms tick_cases [of now "app p"] snapshot_gates by auto
next
  case ClickApply
  then show ?thesis
    using assms by (auto simp: begin_enabled)
next
  case (FetchSettles result now now2 random offsetWidth)
  show ?thesis
  proof (cases "inflight p")
    case Nil
    with assms FetchSettles show ?thesis by simp
  next
    case (Cons m rest)
    with assms FetchSettles show ?thesis
      using settle_rateLimitInfo [of result m now now2 "app p"] snapshot_gates
      by (auto simp: Let_def)
  qed
qed (use assms in \<open>auto simp: countdown_def handleScaleChange_def resetAll_def split: prod.splits\<close>)

lemma reachable_gates:
  "reachable p \<Longrightarrow>
     (0 < remainingTime (rateLimitInfo (app p))
        \<or> APPLY_LIMIT_PER_15MINUTES \<le> appliesInLastMinute (rateLimitInfo (app p))
      \<longrightarrow> isLimited (rateLimitInfo (app p)))
     \<and> 0 \<le> remainingTime (rateLimitInfo (app p))"
proof (induction rule: reachable.induct)
  case (start item now random offsetWidth)
  show ?case by (simp add: initial_page_def initial_state_def APPLY_LIMIT_PER_15MINUTES_def)
next
  case (step p e)
  from step.IH show ?case by (rule react_gates)
qed

lemma messages_differ:
  "wait_message n \<noteq> limit_message" "verification_message \<noteq> limit_message"
  by (simp_all add: wait_message_def limit_message_def verification_message_def)

text \<open>
  C6. In every state the page can reach, \<open>isLimited\<close> holds whenever the cooldown is
  running or the quota is used up. When both hold, a call of \<open>applyChanges\<close> never
  surfaces the quota wording: once the puzzle is solved it is rejected with the
  wording of the remaining cooldown, and the banner shows the cooldown too. The quota
  wording is surfaced only when \<open>isLimited\<close> holds with no cooldown remaining.
\<close>

theorem cooldown_wording_first:
  "reachable p \<Longrightarrow>
     (0 < remainingTime (rateLimitInfo (app p)) \<or> 3 \<le> appliesInLastMinute (rateLimitInfo (app p))
        \<longrightarrow> isLimited (rateLimitInfo (app p)))
     \<and> (0 < remainingTime (rateLimitInfo (app p)) \<and> 3 \<le> appliesInLastMinute (rateLimitInfo (app p))
        \<longrightarrow> lastError (fst (applyChanges_begin (app p))) \<noteq> Some limit_message
            \<and> (isCaptchaVerified (app p) \<longrightarrow>
                  applyChanges_begin (app p) =
                    ((app p)\<lparr> lastError := Some (wait_message (remainingTime (rateLimitInfo (app p)))) \<rparr>, None))
            \<and> RateLimitManager_banner (rateLimitInfo (app p)) =
                  Some (''Cooldown Active'',
                        ''Wait '' @ formatTime (remainingTime (rateLimitInfo (app p))) @ '' before applying changes''))
     \<and> (lastError (fst (applyChanges_begin (app p))) = Some limit_message
        \<longrightarrow> isLimited (rateLimitInfo (app p)) \<and> remainingTime (rateLimitInfo (app p)) = 0)"
proof -
  assume "reachable p"
  then have inv:
    "(0 < remainingTime (rateLimitInfo (app p))
        \<or> APPLY_LIMIT_PER_15MINUTES \<le> appliesInLastMinute (rateLimitInfo (app p))
      \<longrightarrow> isLimited (rateLimitInfo (app p)))
     \<and> 0 \<le> remainingTime (rateLimitInfo (app p))"
    by (rule reachable_gates)
  then show ?thesis
    using messages_differ
    by (auto simp: applyChanges_begin_def RateLimitManager_banner_def APPLY_LIMIT_PER_15MINUTES_def)
qed

theorem cooldown_wording_first_witness:
  "isLimited (rateLimitInfo (app (run [Tick 1700000000000, MouseDown, MouseMove (Some 0) 151]
       (initial_page (JSON_array [1699999997000, 1699999998000, 1699999999000]) 1700000000000 (1 / 2) 340))))
   \<and> applyChanges_begin (app (run [Tick 1700000000000, MouseDown, MouseMove (Some 0) 151]
       (initial_page (JSON_array [1699999997000, 1699999998000, 1699999999000]) 1700000000000 (1 / 2) 340))) =
      ((app (run [Tick 1700000000000, MouseDown, MouseMove (Some 0) 151]
          (initial_page (JSON_array [1699999997000, 1699999998000, 1699999999000]) 1700000000000 (1 / 2) 340)))
         \<lparr> lastError := Some (wait_message 9) \<rparr>, None)
   \<and> remainingTime (rateLimitInfo (app (run [Tick 1700000000000, MouseDown, MouseMove (Some 0) 151]
       (initial_page (JSON_array [1699999970000, 1699999980000, 1699999989000]) 1700000000000 (1 / 2) 340)))) = 0"
proof -
  define p where "p = run [Tick 1700000000000, MouseDown, MouseMove (Some 0) 151]
       (initial_page (JSON_array [1699999997000, 1699999998000, 1699999999000]) 1700000000000 (1 / 2) 340)"
  define q where "q = run [Tick 1700000000000, MouseDown, MouseMove (Some 0) 151]
       (initial_page (JSON_array [1699999970000, 1699999980000, 1699999989000]) 1700000000000 (1 / 2) 340)"
  have rp: "reachable p"
    unfolding p_def by (rule reachable_run [OF reachable.start]) simp
  have rq: "reachable q"
    unfolding q_def by (rule reachable_run [OF reachable.start]) simp
  have p1: "remainingTime (rateLimitInfo (app p)) = 9"
    unfolding p_def by code_simp
  have p2: "appliesInLastMinute (rateLimitInfo (app p)) = 3"
    unfolding p_def by code_simp
  have p3: "isCaptchaVerified (app p)"
    unfolding p_def by code_simp
  have q1: "lastError (fst (applyChanges_begin (app q))) = Some limit_message"
    unfolding q_def by code_simp
  from cooldown_wording_first [OF rp] cooldown_wording_first [OF rq] p1 p2 p3 q1
  have "isLimited (rateLimitInfo (app p))
      \<and> applyChanges_begin (app p) = ((app p)\<lparr> lastError := Some (wait_message 9) \<rparr>, None)
      \<and> remainingTime (rateLimitInfo (app q)) = 0"
    by simp
  then show ?thesis
    unfolding p_def q_def .
qed

section \<open>The puzzle\<close>

text \<open>
  The two centres that \<open>checkVerification\<close> compares are sums rounded to a double. For
  positions that are not negative they are at least 16, so multiples of \<open>2^-48\<close>; their
  difference is then a double whenever it is below 32, and the rounded subtraction
  compares with the tolerance as the exact one does.
\<close>

lemma checkVerification_centres:
  assumes p: "puzzlePosition c = Num p" "0 \<le> p"
    and tcentre: "add_d (puzzlePosition c) (Num (TARGET_WIDTH / 2)) = Num targetCenter"
    and s: "0 \<le> s"
    and scentre: "add_d (Num s) (Num (HANDLE_WIDTH / 2)) = Num sliderCenter"
  shows "checkVerification c (Num s) \<longleftrightarrow> \<bar>sliderCenter - targetCenter\<bar> \<le> tolerance"
proof -
  from tcentre have "add_d (Num p) (Num 16) = Num targetCenter"
    by (simp add: p TARGET_WIDTH_def)
  with p(2) obtain m where m: "targetCenter = rat_of_int m * pow2 (- 48)"
    using centre_on_grid [of p 16 targetCenter] by auto
  from scentre have "add_d (Num s) (Num 20) = Num sliderCenter"
    by (simp add: HANDLE_WIDTH_def)
  with s obtain n where n: "sliderCenter = rat_of_int n * pow2 (- 48)"
    using centre_on_grid [of s 20 sliderCenter] by auto
  have "checkVerification c (Num s) \<longleftrightarrow>
      le_d (Math_abs (sub_d (Num sliderCenter) (Num targetCenter))) (Num tolerance)"
    unfolding checkVerification_def Let_def scentre tcentre ..
  also have "\<dots> \<longleftrightarrow> \<bar>sliderCenter - targetCenter\<bar> \<le> tolerance"
    using n m by (rule compare_on_grid) (simp add: tolerance_def)
  finally show ?thesis .
qed

lemma checkVerification_overflow:
  assumes tcentre: "add_d (puzzlePosition c) (Num (TARGET_WIDTH / 2)) = Num targetCenter"
    and scentre: "\<not> (\<exists>h. add_d (Num s) (Num (HANDLE_WIDTH / 2)) = Num h)"
  shows "\<not> checkVerification c (Num s)"
proof -
  have "add_d (Num s) (Num (HANDLE_WIDTH / 2)) = to_double (s + HANDLE_WIDTH / 2)" by simp
  with scentre to_double_cases [of "s + HANDLE_WIDTH / 2"]
  have "add_d (Num s) (Num (HANDLE_WIDTH / 2)) = PlusInfinity
      \<or> add_d (Num s) (Num (HANDLE_WIDTH / 2)) = MinusInfinity"
    by auto
  then show ?thesis
    unfolding checkVerification_def Let_def tcentre by (rule infinite_centre)
qed

lemma Math_max_d_zero:
  assumes "Math_max_d (Num 0) y = Num s"
  shows "0 \<le> s"
  using assms by (cases y) (auto simp: Math_max_d_def split: if_splits)

lemma move_while_dragging:
  assumes "isDragging c" and "\<not> disabled" and "\<not> isVerified c"
  shows "sliderPosition (fst (handleMouseMove disabled (Some left) clientX c)) =
           Math_max_d (Num 0)
             (Math_min_d (sub_d (containerWidth c) (Num HANDLE_WIDTH))
                (sub_d (sub_d (Num clientX) (Num left)) (Num (HANDLE_WIDTH / 2))))"
    and "isVerified (fst (handleMouseMove disabled (Some left) clientX c)) \<longleftrightarrow>
           checkVerification c (sliderPosition (fst (handleMouseMove disabled (Some left) clientX c)))"
    and "puzzlePosition (fst (handleMouseMove disabled (Some left) clientX c)) = puzzlePosition c"
    and "containerWidth (fst (handleMouseMove disabled (Some left) clientX c)) = containerWidth c"
    and "isDragging (fst (handleMouseMove disabled (Some left) clientX c)) \<longleftrightarrow>
           \<not> isVerified (fst (handleMouseMove disabled (Some left) clientX c))"
    and "snd (handleMouseMove disabled (Some left) clientX c) =
           isVerified (fst (handleMouseMove disabled (Some left) clientX c))"
  using assms by (simp_all add: handleMouseMove_def Let_def)

text \<open>
  C7, in the form that holds. Take a target position that is not negative, and let
  \<open>targetCenter\<close> be the centre the program computes for it, the position plus 16 rounded
  to the nearest double. For every handle position \<open>s\<close> that is not negative, with
  \<open>sliderCenter\<close> the double computed for \<open>s + 20\<close>, the puzzle counts the position as
  solved exactly when \<open>|sliderCenter - targetCenter| \<le> tolerance\<close>, the bound included:
  at distance 5 it is solved, at distance 6 it is not. A handle centre that overflows
  is never solved. Where the two sums are doubles themselves (integer positions, for
  one), the centres are the exact ones. A move of a drag in progress sets the handle to
  the clamped pointer position, which is never negative, leaves the target alone, and
  leaves the puzzle verified, and the drag ended, exactly when the centres computed for
  the new position are within the tolerance.
\<close>

theorem solved_iff_centres_within_tolerance:
  assumes "puzzlePosition c = Num p" and "0 \<le> p"
    and "add_d (puzzlePosition c) (Num (TARGET_WIDTH / 2)) = Num targetCenter"
  shows
    "tolerance = 5
     \<and> (0 \<le> s \<and> add_d (Num s) (Num (HANDLE_WIDTH / 2)) = Num sliderCenter \<longrightarrow>
          (checkVerification c (Num s) \<longleftrightarrow> \<bar>sliderCenter - targetCenter\<bar> \<le> tolerance)
          \<and> (\<bar>sliderCenter - targetCenter\<bar> = tolerance \<longrightarrow> checkVerification c (Num s))
          \<and> (\<bar>sliderCenter - targetCenter\<bar> = tolerance + 1 \<longrightarrow> \<not> checkVerification c (Num s)))
     \<and> (\<not> (\<exists>h. add_d (Num s) (Num (HANDLE_WIDTH / 2)) = Num h) \<longrightarrow> \<not> checkVerification c (Num s))
     \<and> (0 \<le> s \<and> is_double (s + HANDLE_WIDTH / 2) \<and> is_double (p + TARGET_WIDTH / 2) \<longrightarrow>
          (checkVerification c (Num s) \<longleftrightarrow>
             \<bar>(s + HANDLE_WIDTH / 2) - (p + TARGET_WIDTH / 2)\<bar> \<le> tolerance))
     \<and> (isDragging c \<and> \<not> disabled \<and> \<not> isVerified c \<longrightarrow>
          (let c' = fst (handleMouseMove disabled (Some left) clientX c)
           in sliderPosition c' =
                Math_max_d (Num 0)
                  (Math_min_d (sub_d (containerWidth c) (Num HANDLE_WIDTH))
                     (sub_d (sub_d (Num clientX) (Num left)) (Num (HANDLE_WIDTH / 2))))
              \<and> puzzlePosition c' = puzzlePosition c
              \<and> (isDragging c' \<longleftrightarrow> \<not> isVerified c')
              \<and> snd (handleMouseMove disabled (Some left) clientX c) = isVerified c'
              \<and> (isVerified c' \<longleftrightarrow> checkVerification c (sliderPosition c'))
              \<and> (sliderPosition c' = Num s' \<and> add_d (Num s') (Num (HANDLE_WIDTH / 2)) = Num sliderCenter'
                    \<longrightarrow> 0 \<le> s' \<and> (isVerified c' \<longleftrightarrow> \<bar>sliderCenter' - targetCenter\<bar> \<le> tolerance))))"
proof -
  note centres = checkVerification_centres [OF assms]
  have tol: "tolerance = 5" by (simp add: tolerance_def)
  have position: "0 \<le> s \<and> add_d (Num s) (Num (HANDLE_WIDTH / 2)) = Num sliderCenter \<longrightarrow>
          (checkVerification c (Num s) \<longleftrightarrow> \<bar>sliderCenter - targetCenter\<bar> \<le> tolerance)
          \<and> (\<bar>sliderCenter - targetCenter\<bar> = tolerance \<longrightarrow> checkVerification c (Num s))
          \<and> (\<bar>sliderCenter - targetCenter\<bar> = tolerance + 1 \<longrightarrow> \<not> checkVerification c (Num s))"
  proof (intro impI)
    assume "0 \<le> s \<and> add_d (Num s) (Num (HANDLE_WIDTH / 2)) = Num sliderCenter"
    then have "checkVerification c (Num s) \<longleftrightarrow> \<bar>sliderCenter - targetCenter\<bar> \<le> tolerance"
      using centres [of s sliderCenter] by simp
    then show "(checkVerification c (Num s) \<longleftrightarrow> \<bar>sliderCenter - targetCenter\<bar> \<le> tolerance)
          \<and> (\<bar>sliderCenter - targetCenter\<bar> = tolerance \<longrightarrow> checkVerification c (Num s))
          \<and> (\<bar>sliderCenter - targetCenter\<bar> = tolerance + 1 \<longrightarrow> \<not> checkVerification c (Num s))"
      by simp
  qed
  have overflow: "\<not> (\<exists>h. add_d (Num s) (Num (HANDLE_WIDTH / 2)) = Num h) \<longrightarrow> \<not> checkVerification c (Num s)"
    using checkVerification_overflow [OF assms(3)] by blast
  have exact: "0 \<le> s \<and> is_double (s + HANDLE_WIDTH / 2) \<and> is_double (p + TARGET_WIDTH / 2) \<longrightarrow>
          (checkVerification c (Num s) \<longleftrightarrow>
             \<bar>(s + HANDLE_WIDTH / 2) - (p + TARGET_WIDTH / 2)\<bar> \<le> tolerance)"
  proof (intro impI)
    assume h: "0 \<le> s \<and> is_double (s + HANDLE_WIDTH / 2) \<and> is_double (p + TARGET_WIDTH / 2)"
    then have sc: "add_d (Num s) (Num (HANDLE_WIDTH / 2)) = Num (s + HANDLE_WIDTH / 2)"
      by (simp add: is_double_to_double)
    from h have "add_d (puzzlePosition c) (Num (TARGET_WIDTH / 2)) = Num (p + TARGET_WIDTH / 2)"
      by (simp add: assms(1) is_double_to_double)
    with assms(3) have tc: "targetCenter = p + TARGET_WIDTH / 2" by simp
    from h sc show "checkVerification c (Num s) \<longleftrightarrow>
             \<bar>(s + HANDLE_WIDTH / 2) - (p + TARGET_WIDTH / 2)\<bar> \<le> tolerance"
      using centres [of s "s + HANDLE_WIDTH / 2"] by (simp add: tc)
  qed
  have drag: "isDragging c \<and> \<not> disabled \<and> \<not> isVerified c \<longrightarrow>
          (let c' = fst (handleMouseMove disabled (Some left) clientX c)
           in sliderPosition c' =
                Math_max_d (Num 0)
                  (Math_min_d (sub_d (containerWidth c) (Num HANDLE_WIDTH))
                     (sub_d (sub_d (Num clientX) (Num left)) (Num (HANDLE_WIDTH / 2))))
              \<and> puzzlePosition c' = puzzlePosition c
              \<and> (isDragging c' \<longleftrightarrow> \<not> isVerified c')
              \<and> snd (handleMouseMove disabled (Some left) clientX c) = isVerified c'
              \<and> (isVerified c' \<longleftrightarrow> checkVerification c (sliderPosition c'))
              \<and> (sliderPosition c' = Num s' \<and> add_d (Num s') (Num (HANDLE_WIDTH / 2)) = Num sliderCenter'
                    \<longrightarrow> 0 \<le> s' \<and> (isVerified c' \<longleftrightarrow> \<bar>sliderCenter' - targetCenter\<bar> \<le> tolerance)))"
  proof (intro impI)
    let ?c' = "fst (handleMouseMove disabled (Some left) clientX c)"
    assume "isDragging c \<and> \<not> disabled \<and> \<not> isVerified c"
    then have d: "isDragging c" "\<not> disabled" "\<not> isVerified c" by simp_all
    note mv = move_while_dragging [OF d, of left clientX]
    have "sliderPosition ?c' = Num s' \<and> add_d (Num s') (Num (HANDLE_WIDTH / 2)) = Num sliderCenter'
                    \<longrightarrow> 0 \<le> s' \<and> (isVerified ?c' \<longleftrightarrow> \<bar>sliderCenter' - targetCenter\<bar> \<le> tolerance)"
    proof (intro impI)
      assume h: "sliderPosition ?c' = Num s' \<and> add_d (Num s') (Num (HANDLE_WIDTH / 2)) = Num sliderCenter'"
      then have "Math_max_d (Num 0)
             (Math_min_d (sub_d (containerWidth c) (Num HANDLE_WIDTH))
                (sub_d (sub_d (Num clientX) (Num left)) (Num (HANDLE_WIDTH / 2)))) = Num s'"
        using mv(1) by simp
      then have s': "0 \<le> s'" by (rule Math_max_d_zero)
      have "isVerified ?c' \<longleftrightarrow> checkVerification c (Num s')"
        using mv(2) h by simp
      also have "\<dots> \<longleftrightarrow> \<bar>sliderCenter' - targetCenter\<bar> \<le> tolerance"
        using s' h by (simp add: centres)
      finally show "0 \<le> s' \<and> (isVerified ?c' \<longleftrightarrow> \<bar>sliderCenter' - targetCenter\<bar> \<le> tolerance)"
        using s' by simp
    qed
    with mv show "let c' = fst (handleMouseMove disabled (Some left) clientX c)
           in sliderPosition c' =
                Math_max_d (Num 0)
                  (Math_min_d (sub_d (containerWidth c) (Num HANDLE_WIDTH))
                     (sub_d (sub_d (Num clientX) (Num left)) (Num (HANDLE_WIDTH / 2))))
              \<and> puzzlePosition c' = puzzlePosition c
              \<and> (isDragging c' \<longleftrightarrow> \<not> isVerified c')
              \<and> snd (handleMouseMove disabled (Some left) clientX c) = isVerified c'
              \<and> (isVerified c' \<longleftrightarrow> checkVerification c (sliderPosition c'))
              \<and> (sliderPosition c' = Num s' \<and> add_d (Num s') (Num (HANDLE_WIDTH / 2)) = Num sliderCenter'
                    \<longrightarrow> 0 \<le> s' \<and> (isVerified c' \<longleftrightarrow> \<bar>sliderCenter' - targetCenter\<bar> \<le> tolerance))"
      unfolding Let_def by blast
  qed
  from tol position overflow exact drag show ?thesis by blast
qed

theorem solved_iff_centres_within_tolerance_witness:
  "checkVerification (handleMouseDown False (mount_captcha (1 / 2) 340)) (Num 126)
   \<and> \<not> checkVerification (handleMouseDown False (mount_captcha (1 / 2) 340)) (Num 125)
   \<and> \<not> checkVerification (handleMouseDown False (mount_captcha (1 / 2) 340)) (Num (2 ^ 1024))
   \<and> isVerified (fst (handleMouseMove False (Some 0) 146 (handleMouseDown False (mount_captcha (1 / 2) 340))))
   \<and> \<not> isDragging (fst (handleMouseMove False (Some 0) 146 (handleMouseDown False (mount_captcha (1 / 2) 340))))
   \<and> \<not> isVerified (fst (handleMouseMove False (Some 0) 145 (handleMouseDown False (mount_captcha (1 / 2) 340))))"
proof -
  have eq: "handleMouseDown False (mount_captcha (1 / 2) 340) =
      \<lparr> isVerified = False, sliderPosition = Num 0, isDragging = True, puzzlePosition = Num 135,
        containerWidth = Num 300 \<rparr>"
    by code_simp
  define d where "d = handleMouseDown False (mount_captcha (1 / 2) 340)"
  have pz: "puzzlePosition d = Num 135" "isDragging d" "\<not> isVerified d" "containerWidth d = Num 300"
    by (simp_all add: d_def eq)
  have tc: "add_d (puzzlePosition d) (Num (TARGET_WIDTH / 2)) = Num 151"
    unfolding pz by code_simp
  have s126: "add_d (Num 126) (Num (HANDLE_WIDTH / 2)) = Num 146"
    by code_simp
  have s125: "add_d (Num 125) (Num (HANDLE_WIDTH / 2)) = Num 145"
    by code_simp
  have "pow2 1024 \<le> 2 ^ 1024 + HANDLE_WIDTH / 2"
    by (simp add: pow2_def HANDLE_WIDTH_def)
  then have big: "add_d (Num (2 ^ 1024)) (Num (HANDLE_WIDTH / 2)) = PlusInfinity"
    by (simp only: add_d.simps to_double_overflow)
  have dbl: "is_double (126 + HANDLE_WIDTH / 2)" "is_double (135 + TARGET_WIDTH / 2)"
    by code_simp+
  have p146: "Math_max_d (Num 0)
                  (Math_min_d (sub_d (containerWidth d) (Num HANDLE_WIDTH))
                     (sub_d (sub_d (Num 146) (Num 0)) (Num (HANDLE_WIDTH / 2)))) = Num 126"
    unfolding pz by code_simp
  have p145: "Math_max_d (Num 0)
                  (Math_min_d (sub_d (containerWidth d) (Num HANDLE_WIDTH))
                     (sub_d (sub_d (Num 145) (Num 0)) (Num (HANDLE_WIDTH / 2)))) = Num 125"
    unfolding pz by code_simp
  have dist: "\<bar>146 - 151\<bar> = tolerance" "\<bar>145 - 151\<bar> = tolerance + 1"
    "\<bar>(126 + HANDLE_WIDTH / 2) - (135 + TARGET_WIDTH / 2)\<bar> \<le> tolerance"
    by (simp_all add: tolerance_def HANDLE_WIDTH_def TARGET_WIDTH_def)
  have p0: "(0::rat) \<le> 135" "(0::rat) \<le> 126" "(0::rat) \<le> 125" by simp_all
  have a: "checkVerification d (Num 126)"
    using solved_iff_centres_within_tolerance
      [OF pz(1) p0(1) tc, where s = 126 and sliderCenter = 146] s126 dist(1) dbl dist(3) p0(2)
    by blast
  have b: "\<not> checkVerification d (Num 125)"
    using solved_iff_centres_within_tolerance
      [OF pz(1) p0(1) tc, where s = 125 and sliderCenter = 145] s125 dist(2) p0(3)
    by blast
  have c: "\<not> checkVerification d (Num (2 ^ 1024))"
    using solved_iff_centres_within_tolerance
      [OF pz(1) p0(1) tc, where s = "2 ^ 1024"] big
    by simp
  have e: "isVerified (fst (handleMouseMove False (Some 0) 146 d))
      \<and> \<not> isDragging (fst (handleMouseMove False (Some 0) 146 d))"
    using solved_iff_centres_within_tolerance
      [OF pz(1) p0(1) tc, where disabled = False and left = 0 and clientX = 146
         and s' = 126 and sliderCenter' = 146] pz(2,3) p146 s126
    unfolding Let_def by (simp add: tolerance_def)
  have f: "\<not> isVerified (fst (handleMouseMove False (Some 0) 145 d))"
    using solved_iff_centres_within_tolerance
      [OF pz(1) p0(1) tc, where disabled = False and left = 0 and clientX = 145
         and s' = 125 and sliderCenter' = 145] pz(2,3) p145 s125
    unfolding Let_def by (simp add: tolerance_def)
  from a b c e f show ?thesis
    unfolding d_def by blast
qed

text \<open>
  C7 as stated, with the centres taken as the exact sums \<open>position + 20\<close> and
  \<open>position + 16\<close>, fails by one rounding, in both directions, in runs of the puzzle.
  Mounted with \<open>Math.random() = 0.37222222222222245\<close> the target is at
  \<open>112 + 3 * 2^-46\<close>; the pointer at \<open>123 + 3 * 2^-46\<close> puts the handle at
  \<open>103 + 3 * 2^-46\<close>: the exact centres are 5 apart, the target centre rounds up to
  \<open>128 + 4 * 2^-46\<close>, and the puzzle is not verified. Mounted with
  \<open>Math.random() = 0.41666666666666674\<close> the target is at \<open>120 + 2^-46\<close>; the pointer at
  131 puts the handle at 111: the exact centres are \<open>5 + 2^-46\<close> apart, the target centre
  rounds down to 136, and the puzzle is verified.
\<close>

theorem exact_centres_counterexample:
  "is_double (1676339861299019 / 4503599627370496)
   \<and> is_double (8655355533852675 / 70368744177664)
   \<and> puzzlePosition (fst (handleMouseMove False (Some 0) (8655355533852675 / 70368744177664)
        (handleMouseDown False (mount_captcha (1676339861299019 / 4503599627370496) 340))))
       = Num (7881299347898371 / 70368744177664)
   \<and> sliderPosition (fst (handleMouseMove False (Some 0) (8655355533852675 / 70368744177664)
        (handleMouseDown False (mount_captcha (1676339861299019 / 4503599627370496) 340))))
       = Num (7247980650299395 / 70368744177664)
   \<and> \<bar>(7247980650299395 / 70368744177664 + HANDLE_WIDTH / 2)
        - (7881299347898371 / 70368744177664 + TARGET_WIDTH / 2)\<bar> = tolerance
   \<and> \<not> isVerified (fst (handleMouseMove False (Some 0) (8655355533852675 / 70368744177664)
        (handleMouseDown False (mount_captcha (1676339861299019 / 4503599627370496) 340))))
   \<and> is_double (1876499844737707 / 4503599627370496)
   \<and> puzzlePosition (fst (handleMouseMove False (Some 0) 131
        (handleMouseDown False (mount_captcha (1876499844737707 / 4503599627370496) 340))))
       = Num (8444249301319681 / 70368744177664)
   \<and> sliderPosition (fst (handleMouseMove False (Some 0) 131
        (handleMouseDown False (mount_captcha (1876499844737707 / 4503599627370496) 340))))
       = Num 111
   \<and> tolerance < \<bar>(111 + HANDLE_WIDTH / 2) - (8444249301319681 / 70368744177664 + TARGET_WIDTH / 2)\<bar>
   \<and> isVerified (fst (handleMouseMove False (Some 0) 131
        (handleMouseDown False (mount_captcha (1876499844737707 / 4503599627370496) 340))))"
proof -
  have a: "fst (handleMouseMove False (Some 0) (8655355533852675 / 70368744177664)
        (handleMouseDown False (mount_captcha (1676339861299019 / 4503599627370496) 340))) =
      \<lparr> isVerified = False, sliderPosition = Num (7247980650299395 / 70368744177664),
        isDragging = True, puzzlePosition = Num (7881299347898371 / 70368744177664),
        containerWidth = Num 300 \<rparr>"
    by code_simp
  have b: "fst (handleMouseMove False (Some 0) 131
        (handleMouseDown False (mount_captcha (1876499844737707 / 4503599627370496) 340))) =
      \<lparr> isVerified = True, sliderPosition = Num 111,
        isDragging = False, puzzlePosition = Num (8444249301319681 / 70368744177664),
        containerWidth = Num 300 \<rparr>"
    by code_simp
  have d: "is_double (1676339861299019 / 4503599627370496)"
    "is_double (8655355533852675 / 70368744177664)"
    "is_double (1876499844737707 / 4503599627370496)"
    by code_simp+
  show ?thesis
    unfolding a b using d by (simp add: HANDLE_WIDTH_def TARGET_WIDTH_def tolerance_def)
qed

lemma generateNewPuzzle_resets:
  "\<not> isVerified (generateNewPuzzle random c)" "sliderPosition (generateNewPuzzle random c) = Num 0"
  "containerWidth (generateNewPuzzle random c) = containerWidth c"
  by (simp_all add: generateNewPuzzle_def Let_def)

lemma mount_captcha_fields:
  "isVerified (mount_captcha random w) = isVerified (generateNewPuzzle random initial_captcha)"
  "sliderPosition (mount_captcha random w) = sliderPosition (generateNewPuzzle random initial_captcha)"
  "puzzlePosition (mount_captcha random w) = puzzlePosition (generateNewPuzzle random initial_captcha)"
  by (simp_all add: mount_captcha_def updateWidth_def)

lemma settle_success_page:
  assumes "inflight p = m # rest" and "resolves_2xx result" and "readable (localStorage (app p))"
  shows "puzzle (react (FetchSettles result now now2 random w) p) = mount_captcha random w"
    and "\<not> isCaptchaVerified (app (react (FetchSettles result now now2 random w) p))"
proof -
  have key: "captchaKey (applyChanges_settle result m now now2 (app p)) = captchaKey (app p) + 1"
    and ver: "\<not> isCaptchaVerified (applyChanges_settle result m now now2 (app p))"
    using tick_cases [of now2 "(app p)\<lparr> appliedMetrics := m, lastApplied := now,
              localStorage :=
                JSON_array (filter (\<lambda>t. now - 15 * 60 * 1000 < t) (stored_timestamps (localStorage (app p))) @ [now]),
              isCaptchaVerified := False, captchaKey := captchaKey (app p) + 1, showGrafanaButton := True \<rparr>"]
    by (simp_all only: settle_success_readable [OF assms(2,3)]) auto
  show "puzzle (react (FetchSettles result now now2 random w) p) = mount_captcha random w"
    using assms(1) key by (simp add: Let_def)
  show "\<not> isCaptchaVerified (app (react (FetchSettles result now now2 random w) p))"
    using assms(1) ver by (simp add: Let_def)
qed

text \<open>
  What every reissue of the puzzle establishes (the part of C8 that holds). Whatever the
  state before, it leaves the puzzle unsolved and the handle at offset 0, and it draws
  the target as \<open>generateNewPuzzle\<close> does for the width the component holds at that moment.
  For the reset button that is the measured width of the track. For the first mount and
  for the remount that a confirmed apply forces it is the initial 300: the target is
  drawn before the container is measured.
\<close>

theorem reissue_is_fresh:
  "\<not> isVerified (generateNewPuzzle random c)
   \<and> sliderPosition (generateNewPuzzle random c) = Num 0
   \<and> (let p' = react (ClickResetCaptcha random) p
      in \<not> isCaptchaVerified (app p') \<and> \<not> isVerified (puzzle p') \<and> sliderPosition (puzzle p') = Num 0
         \<and> puzzlePosition (puzzle p') = puzzlePosition (generateNewPuzzle random (puzzle p))
         \<and> containerWidth (puzzle p') = containerWidth (puzzle p))
   \<and> (let p' = initial_page item now random offsetWidth
      in \<not> isCaptchaVerified (app p') \<and> \<not> isVerified (puzzle p') \<and> sliderPosition (puzzle p') = Num 0
         \<and> puzzlePosition (puzzle p') = puzzlePosition (generateNewPuzzle random initial_captcha)
         \<and> containerWidth (puzzle p') = sub_d (Num offsetWidth) (Num 40))
   \<and> (inflight p \<noteq> [] \<and> resolves_2xx result \<and> readable (localStorage (app p)) \<longrightarrow>
        (let p' = react (FetchSettles result now now2 random offsetWidth) p
         in \<not> isCaptchaVerified (app p') \<and> \<not> isVerified (puzzle p') \<and> sliderPosition (puzzle p') = Num 0
            \<and> puzzlePosition (puzzle p') = puzzlePosition (generateNewPuzzle random initial_captcha)
            \<and> containerWidth (puzzle p') = sub_d (Num offsetWidth) (Num 40)))"
proof -
  have mounted: "\<And>w. \<not> isVerified (mount_captcha random w) \<and> sliderPosition (mount_captcha random w) = Num 0
      \<and> puzzlePosition (mount_captcha random w) = puzzlePosition (generateNewPuzzle random initial_captcha)
      \<and> containerWidth (mount_captcha random w) = sub_d (Num w) (Num 40)"
    by (simp add: mount_captcha_def updateWidth_def generateNewPuzzle_resets)
  have first: "\<not> isVerified (generateNewPuzzle random c)
      \<and> sliderPosition (generateNewPuzzle random c) = Num 0"
    by (simp add: generateNewPuzzle_resets)
  have reset: "let p' = react (ClickResetCaptcha random) p
      in \<not> isCaptchaVerified (app p') \<and> \<not> isVerified (puzzle p') \<and> sliderPosition (puzzle p') = Num 0
         \<and> puzzlePosition (puzzle p') = puzzlePosition (generateNewPuzzle random (puzzle p))
         \<and> containerWidth (puzzle p') = containerWidth (puzzle p)"
    by (simp add: Let_def generateNewPuzzle_resets)
  have init: "let p' = initial_page item now random offsetWidth
      in \<not> isCaptchaVerified (app p') \<and> \<not> isVerified (puzzle p') \<and> sliderPosition (puzzle p') = Num 0
         \<and> puzzlePosition (puzzle p') = puzzlePosition (generateNewPuzzle random initial_captcha)
         \<and> containerWidth (puzzle p') = sub_d (Num offsetWidth) (Num 40)"
    using mounted [of offsetWidth] by (simp add: Let_def initial_page_def initial_state_def)
  have forced: "inflight p \<noteq> [] \<and> resolves_2xx result \<and> readable (localStorage (app p)) \<longrightarrow>
        (let p' = react (FetchSettles result now now2 random offsetWidth) p
         in \<not> isCaptchaVerified (app p') \<and> \<not> isVerified (puzzle p') \<and> sliderPosition (puzzle p') = Num 0
            \<and> puzzlePosition (puzzle p') = puzzlePosition (generateNewPuzzle random initial_captcha)
            \<and> containerWidth (puzzle p') = sub_d (Num offsetWidth) (Num 40))"
  proof (intro impI)
    assume h: "inflight p \<noteq> [] \<and> resolves_2xx result \<and> readable (localStorage (app p))"
    then obtain m rest where "inflight p = m # rest" by (cases "inflight p") auto
    from settle_success_page [OF this] h mounted [of offsetWidth]
    show "let p' = react (FetchSettles result now now2 random offsetWidth) p
         in \<not> isCaptchaVerified (app p') \<and> \<not> isVerified (puzzle p') \<and> sliderPosition (puzzle p') = Num 0
            \<and> puzzlePosition (puzzle p') = puzzlePosition (generateNewPuzzle random initial_captcha)
            \<and> containerWidth (puzzle p') = sub_d (Num offsetWidth) (Num 40)"
      by (simp only: Let_def) blast
  qed
  from first reset init forced
  show ?thesis
    by blast
qed

theorem reissue_is_fresh_witness:
  "\<not> isVerified (puzzle (react (FetchSettles (Responded 200 (Data_text ''ok'')) 1700000000300 1700000000300 (1 / 2) 340)
        (run [ScaleChange cpu_seconds_total 2, MouseDown, MouseMove (Some 0) 151, ClickApply]
           (initial_page No_item 1700000000000 (1 / 2) 340))))
   \<and> sliderPosition (puzzle (react (FetchSettles (Responded 200 (Data_text ''ok'')) 1700000000300 1700000000300 (1 / 2) 340)
        (run [ScaleChange cpu_seconds_total 2, MouseDown, MouseMove (Some 0) 151, ClickApply]
           (initial_page No_item 1700000000000 (1 / 2) 340)))) = Num 0
   \<and> isVerified (puzzle (run [ScaleChange cpu_seconds_total 2, MouseDown, MouseMove (Some 0) 151, ClickApply]
           (initial_page No_item 1700000000000 (1 / 2) 340)))"
proof -
  define p where "p = run [ScaleChange cpu_seconds_total 2, MouseDown, MouseMove (Some 0) 151, ClickApply]
           (initial_page No_item 1700000000000 (1 / 2) 340)"
  have n: "length (inflight p) = 1"
    unfolding p_def by code_simp
  then have n': "inflight p \<noteq> []" by auto
  have v: "isVerified (puzzle p)"
    unfolding p_def by code_simp
  have r: "readable (localStorage (app p))"
    unfolding p_def by code_simp
  have ok: "resolves_2xx (Responded 200 (Data_text ''ok''))"
    by (simp add: response_ok_def)
  from reissue_is_fresh
      [where p = p and result = "Responded 200 (Data_text ''ok'')"
         and now = 1700000000300 and ?now2.0 = 1700000000300 and offsetWidth = 340 and random = "1 / 2"]
    n' r ok v
  have "\<not> isVerified (puzzle (react (FetchSettles (Responded 200 (Data_text ''ok'')) 1700000000300 1700000000300 (1 / 2) 340) p))
   \<and> sliderPosition (puzzle (react (FetchSettles (Responded 200 (Data_text ''ok'')) 1700000000300 1700000000300 (1 / 2) 340) p)) = Num 0
   \<and> isVerified (puzzle p)"
    unfolding Let_def by (simp del: react.simps)
  then show ?thesis
    unfolding p_def .
qed

text \<open>
  C8 fails at a mount. In a container 280 wide (the least the style allows) the track is
  240 wide, its safe range ends at 180, and a mount with \<open>Math.random() = 0.99\<close> (the
  double, \<open>4458563631096791 / 2^52\<close>) puts the target at 223.2: the range of a track 300
  wide. The handle cannot reach that target, not even from its rightmost position. The
  reset button, on the same puzzle, draws within the measured track, at 178.56.
\<close>

theorem mount_draws_for_default_width:
  "containerWidth (mount_captcha (4458563631096791 / 4503599627370496) 280) = Num 240
   \<and> puzzlePosition (mount_captcha (4458563631096791 / 4503599627370496) 280) = to_double (1116 / 5)
   \<and> mul_d (containerWidth (mount_captcha (4458563631096791 / 4503599627370496) 280)) (to_double (75 / 100))
       = Num 180
   \<and> \<not> checkVerification (mount_captcha (4458563631096791 / 4503599627370496) 280)
         (sub_d (containerWidth (mount_captcha (4458563631096791 / 4503599627370496) 280)) (Num HANDLE_WIDTH))
   \<and> puzzlePosition (generateNewPuzzle (4458563631096791 / 4503599627370496)
         (mount_captcha (4458563631096791 / 4503599627370496) 280)) = to_double (4464 / 25)"
proof -
  have eq: "mount_captcha (4458563631096791 / 4503599627370496) 280 =
      \<lparr> isVerified = False, sliderPosition = Num 0, isDragging = False,
        puzzlePosition = Num (3926575925113651 / 17592186044416), containerWidth = Num 240 \<rparr>"
    by code_simp
  have a: "to_double (1116 / 5) = Num (3926575925113651 / 17592186044416)"
    by code_simp
  have b: "mul_d (Num 240) (to_double (75 / 100)) = Num 180"
    by code_simp
  have c: "\<not> checkVerification \<lparr> isVerified = False, sliderPosition = Num 0, isDragging = False,
        puzzlePosition = Num (3926575925113651 / 17592186044416), containerWidth = Num 240 \<rparr>
      (sub_d (Num 240) (Num HANDLE_WIDTH))"
    by code_simp
  have d: "puzzlePosition (generateNewPuzzle (4458563631096791 / 4503599627370496)
       \<lparr> isVerified = False, sliderPosition = Num 0, isDragging = False,
        puzzlePosition = Num (3926575925113651 / 17592186044416), containerWidth = Num 240 \<rparr>)
     = Num (3141260740090921 / 17592186044416)"
    by code_simp
  have e: "to_double (4464 / 25) = Num (3141260740090921 / 17592186044416)"
    by code_simp
  show ?thesis
    unfolding eq a e using b c d by simp
qed

text \<open>No pointer position solves the puzzle mounted above.\<close>

lemma mount_cannot_be_solved:
  "\<not> isVerified (fst (handleMouseMove disabled rect_left clientX
        (handleMouseDown disabled (mount_captcha (4458563631096791 / 4503599627370496) 280))))"
proof -
  define c where "c = mount_captcha (4458563631096791 / 4503599627370496) 280"
  have eq: "c = \<lparr> isVerified = False, sliderPosition = Num 0, isDragging = False,
        puzzlePosition = Num (3926575925113651 / 17592186044416), containerWidth = Num 240 \<rparr>"
    unfolding c_def by code_simp
  show ?thesis
  proof (cases "disabled \<or> rect_left = None")
    case True
    then show ?thesis
      unfolding c_def [symmetric]
      by (auto simp: eq handleMouseDown_def handleMouseMove_def)
  next
    case False
    then obtain left where l: "rect_left = Some left" and en: "\<not> disabled" by auto
    let ?d = "handleMouseDown disabled c"
    have d: "isDragging ?d" "\<not> isVerified ?d" "containerWidth ?d = Num 240"
      "puzzlePosition ?d = Num (3926575925113651 / 17592186044416)"
      using en by (simp_all add: handleMouseDown_def eq)
    have w: "sub_d (Num 240) (Num HANDLE_WIDTH) = Num 200"
      by code_simp
    have tc: "add_d (puzzlePosition ?d) (Num (TARGET_WIDTH / 2)) = Num (4208050901824307 / 17592186044416)"
      unfolding d by code_simp
    have "sub_d (sub_d (Num clientX) (Num left)) (Num (HANDLE_WIDTH / 2)) \<noteq> NaN"
      by (intro sub_d_not_NaN) simp
    from clamp_range [OF this, of 200]
    obtain s where s: "Math_max_d (Num 0)
         (Math_min_d (Num 200) (sub_d (sub_d (Num clientX) (Num left)) (Num (HANDLE_WIDTH / 2)))) = Num s"
      and s0: "0 \<le> s" and s200: "s \<le> 200"
      by auto
    have pos: "sliderPosition (fst (handleMouseMove disabled (Some left) clientX ?d)) = Num s"
      using move_while_dragging(1) [OF d(1) en d(2), of left clientX] by (simp add: d(3) w s)
    have "pow2 (- 1022) \<le> s + HANDLE_WIDTH / 2"
    proof -
      have "pow2 (- 1022) \<le> 1" by (simp add: pow2_def)
      with s0 show ?thesis by (simp add: HANDLE_WIDTH_def)
    qed
    moreover
    define t where "t = (s + HANDLE_WIDTH / 2) / 2 ^ 53"
    have t: "t \<le> 1"
      using s200 by (simp add: t_def HANDLE_WIDTH_def)
    have sum: "s + HANDLE_WIDTH / 2 + t \<le> 221"
      using s200 t by (simp add: HANDLE_WIDTH_def)
    have "s + HANDLE_WIDTH / 2 + t < pow2 1024"
    proof -
      have "(221::rat) < pow2 1024" by (simp add: pow2_def)
      with sum show ?thesis by simp
    qed
    ultimately obtain h where h: "to_double (s + HANDLE_WIDTH / 2) = Num h"
      and hb: "h \<le> s + HANDLE_WIDTH / 2 + t"
      unfolding t_def using to_double_above [of "s + HANDLE_WIDTH / 2"] by auto
    from hb sum have h221: "h \<le> 221" by simp
    have "checkVerification ?d (Num s) \<longleftrightarrow>
        \<bar>h - 4208050901824307 / 17592186044416\<bar> \<le> tolerance"
      using d(4) _ tc s0 by (rule checkVerification_centres) (simp_all add: h)
    with h221 have "\<not> checkVerification ?d (Num s)"
      by (simp add: tolerance_def)
    then show ?thesis
      using move_while_dragging(2) [OF d(1) en d(2), of left clientX]
      unfolding c_def [symmetric] l pos by simp
  qed
qed


section \<open>The applied values, rounded\<close>


lemma double_of_1_7: "fl (17 / 10) = Finite (7656119366529843 / 4503599627370496)"
  using fl_positive [where q = "17 / 10" and k = 0 and m = 7656119366529843]
  by (simp add: pow2_def)

lemma cpu_base_double: "fl (6161 / 4) = Finite (6161 / 4)"
  using fl_positive [where q = "6161 / 4" and k = 10 and m = "6161 * 2 ^ 40"]
  by (simp add: pow2_def)

lemma cpu_times_1_7: "fl (6161 / 4 * (7656119366529843 / 4503599627370496)) = Finite (5757977467918745 / 2199023255552)"
  using fl_positive [where q = "6161 / 4 * (7656119366529843 / 4503599627370496)" and k = 11 and m = 5757977467918745]
  by (simp add: pow2_def)

lemma cpu_back_by_1_7: "fl (5757977467918745 / 2199023255552 / (7656119366529843 / 4503599627370496)) = Finite (6774091138727935 / 4398046511104)"
  using fl_positive [where q = "5757977467918745 / 2199023255552 / (7656119366529843 / 4503599627370496)" and k = 10 and m = 6774091138727935]
  by (simp add: pow2_def)

lemma cpu_drifted_double: "fl (6774091138727935 / 4398046511104) = Finite (6774091138727935 / 4398046511104)"
  using fl_positive [where q = "6774091138727935 / 4398046511104" and k = 10 and m = 6774091138727935]
  by (simp add: pow2_def)


lemma quarter_double: "fl (1 / 4) = Finite (1 / 4)"
  using fl_positive [where q = "1 / 4" and k = "- 2" and m = "2 ^ 52"]
  by (simp add: pow2_def)

lemma memory_double: "fl 536870912 = Finite 536870912"
  using fl_positive [where q = 536870912 and k = 29 and m = "2 ^ 52"]
  by (simp add: pow2_def)

lemma initial_value: "metric_value (initial_metrics key) = Finite (base_value key)"
  "metric_scale (initial_metrics key) = 1"
  by (cases key; simp)+

lemma base_double: "fl (base_value key) = Finite (base_value key)"
  by (cases key) (simp_all add: quarter_double cpu_base_double memory_double)

lemma floor_log2_tenth:
  assumes "1 / 10 \<le> s"
  shows "- 4 \<le> floor_log2 s"
proof -
  from assms have pos: "0 < s" by simp
  from floor_log2_bounds [OF pos] have "s < pow2 (floor_log2 s + 1)" by simp
  moreover have "pow2 (- 4) \<le> s" using assms by (simp add: pow2_def)
  ultimately have "pow2 (- 4) < pow2 (floor_log2 s + 1)" by simp
  then have "- 4 < floor_log2 s + 1" by (simp only: pow2_less_iff)
  then show ?thesis by simp
qed

lemma power_of_two_base:
  assumes "key \<noteq> cpu_seconds_total" and "is_double s" and "1 / 10 \<le> s" and "s \<le> 10"
  shows "fl (base_value key * s) = Finite (base_value key * s)"
proof -
  from assms(3) have nz: "s \<noteq> 0" and a: "\<bar>s\<bar> = s" by simp_all
  from assms(2) have d: "fl s = Finite s" by (simp add: is_double_def)
  have lg: "- 4 \<le> floor_log2 \<bar>s\<bar>" using floor_log2_tenth [OF assms(3)] by (simp add: a)
  show ?thesis
  proof (cases key)
    case http_request_duration_seconds
    have "fl (pow2 (- 2) * s) = Finite (pow2 (- 2) * s)"
    proof (rule fl_scale [OF d nz])
      show "- 1074 \<le> floor_log2 \<bar>s\<bar> - 52 + - 2" using lg by simp
      show "pow2 (- 2) * \<bar>s\<bar> < pow2 1024" using assms(4) by (simp add: a pow2_def)
    qed
    then show ?thesis using http_request_duration_seconds by (simp add: pow2_def)
  next
    case cpu_seconds_total
    with assms(1) show ?thesis by simp
  next
    case process_memory_bytes
    have "fl (pow2 29 * s) = Finite (pow2 29 * s)"
    proof (rule fl_scale [OF d nz])
      show "- 1074 \<le> floor_log2 \<bar>s\<bar> - 52 + 29" using lg by simp
      have "pow2 29 * \<bar>s\<bar> \<le> pow2 29 * 10" using assms(4) pow2_pos [of 29] by (simp add: a)
      also have "\<dots> < pow2 1024" by (simp add: pow2_def)
      finally show "pow2 29 * \<bar>s\<bar> < pow2 1024" .
    qed
    then show ?thesis using process_memory_bytes by (simp add: pow2_def)
  qed
qed

lemma settle_appliedMetrics:
  "appliedMetrics (applyChanges_settle result m now now2 s) =
     (if resolves_2xx result then m else appliedMetrics s)"
proof (cases "resolves_2xx result")
  case False
  then show ?thesis using settle_failure [OF False, of m now now2 s] by auto
next
  case True
  show ?thesis
  proof (cases "readable (localStorage s)")
    case r: True
    show ?thesis
      using tick_cases [of now2 "s\<lparr> appliedMetrics := m, lastApplied := now,
              localStorage :=
                JSON_array (filter (\<lambda>t. now - 15 * 60 * 1000 < t) (stored_timestamps (localStorage s)) @ [now]),
              isCaptchaVerified := False, captchaKey := captchaKey s + 1, showGrafanaButton := True \<rparr>"]
      by (simp only: settle_success_readable [OF True r]) (use True in auto)
  next
    case r: False
    then show ?thesis using settle_success_unreadable [OF True r, of m now now2] True by auto
  qed
qed

lemma begin_payload:
  "snd (applyChanges_begin s) = None \<or> snd (applyChanges_begin s) = Some (newAppliedMetrics_of s)"
  by (simp add: applyChanges_begin_def)

lemma new_value:
  "metric_value (newAppliedMetrics_of s key) =
     js_mul (js_div (metric_value (appliedMetrics s key)) (metric_scale (appliedMetrics s key)))
       (metric_scale (metrics s key))"
  "metric_scale (newAppliedMetrics_of s key) = metric_scale (metrics s key)"
  by (simp_all add: newAppliedMetrics_of_def Let_def)

text \<open>
  C10, amended. A successful apply replaces \<open>appliedMetrics\<close> by the \<open>newAppliedMetrics\<close> of
  the call: for every key the requested scale, and as value the applied value divided
  by the applied scale and multiplied by the requested scale, each operation rounded to
  a double. From the initial state the first apply gives the double nearest to the base
  value times the scale. For the two metrics whose base value is a power of two
  (0.25 and 536870912) the value stays the base value times the applied scale, exactly,
  under every apply with a scale between 0.1 and 10; for the third (1540.25) the base
  value is kept only up to rounding.
\<close>

theorem base_value_up_to_rounding:
  "(snd (applyChanges_begin s) = None \<or> snd (applyChanges_begin s) = Some (newAppliedMetrics_of s))
   \<and> appliedMetrics (applyChanges_settle result m now now2 s') =
       (if resolves_2xx result then m else appliedMetrics s')
   \<and> metric_scale (newAppliedMetrics_of s key) = metric_scale (metrics s key)
   \<and> metric_value (newAppliedMetrics_of s key) =
       js_mul (js_div (metric_value (appliedMetrics s key)) (metric_scale (appliedMetrics s key)))
         (metric_scale (metrics s key))
   \<and> (appliedMetrics s = initial_metrics \<longrightarrow>
        metric_value (newAppliedMetrics_of s key) = fl (base_value key * metric_scale (metrics s key)))
   \<and> (key \<noteq> cpu_seconds_total
        \<and> metric_value (appliedMetrics s key) = Finite (base_value key * metric_scale (appliedMetrics s key))
        \<and> metric_scale (appliedMetrics s key) \<noteq> 0
        \<and> is_double (metric_scale (metrics s key))
        \<and> 1 / 10 \<le> metric_scale (metrics s key) \<and> metric_scale (metrics s key) \<le> 10
      \<longrightarrow> metric_value (newAppliedMetrics_of s key) = Finite (base_value key * metric_scale (metrics s key)))"
proof -
  have first: "appliedMetrics s = initial_metrics \<longrightarrow>
        metric_value (newAppliedMetrics_of s key) = fl (base_value key * metric_scale (metrics s key))"
    by (simp add: new_value initial_value base_double)
  have exact: "key \<noteq> cpu_seconds_total
        \<and> metric_value (appliedMetrics s key) = Finite (base_value key * metric_scale (appliedMetrics s key))
        \<and> metric_scale (appliedMetrics s key) \<noteq> 0
        \<and> is_double (metric_scale (metrics s key))
        \<and> 1 / 10 \<le> metric_scale (metrics s key) \<and> metric_scale (metrics s key) \<le> 10
      \<longrightarrow> metric_value (newAppliedMetrics_of s key) = Finite (base_value key * metric_scale (metrics s key))"
    by (simp add: new_value base_double power_of_two_base)
  from first exact show ?thesis
    using begin_payload [of s] by (simp only: settle_appliedMetrics new_value)
qed

lemma two_double: "is_double 2"
  unfolding is_double_def
  using fl_positive [where q = 2 and k = 1 and m = "2 ^ 52"]
  by (simp add: pow2_def)

lemma first_cpu:
  "js_mul (js_div (Finite (6161 / 4)) 1) (7656119366529843 / 4503599627370496)
     = Finite (5757977467918745 / 2199023255552)"
proof -
  have "js_div (Finite (6161 / 4)) 1 = Finite (6161 / 4)"
    using cpu_base_double by simp
  then show ?thesis
    using cpu_times_1_7 by simp
qed

lemma second_cpu:
  "js_mul (js_div (Finite (5757977467918745 / 2199023255552)) (7656119366529843 / 4503599627370496)) 1
     = Finite (6774091138727935 / 4398046511104)"
proof -
  have "js_div (Finite (5757977467918745 / 2199023255552)) (7656119366529843 / 4503599627370496)
      = Finite (6774091138727935 / 4398046511104)"
    using cpu_back_by_1_7 by simp
  then show ?thesis
    using cpu_drifted_double by simp
qed

theorem base_value_up_to_rounding_witness:
  "metric_value (newAppliedMetrics_of
       (handleScaleChange http_request_duration_seconds 2 (initial_state No_item 0))
       http_request_duration_seconds)
     = Finite (1 / 4 * 2)
   \<and> metric_value (newAppliedMetrics_of
       (handleScaleChange cpu_seconds_total (7656119366529843 / 4503599627370496) (initial_state No_item 0))
       cpu_seconds_total)
     = Finite (5757977467918745 / 2199023255552)"
proof -
  define s where "s = handleScaleChange http_request_duration_seconds 2 (initial_state No_item 0)"
  define t where "t = handleScaleChange cpu_seconds_total (7656119366529843 / 4503599627370496)
          (initial_state No_item 0)"
  have s1: "appliedMetrics s = initial_metrics"
    "metric_scale (metrics s http_request_duration_seconds) = 2"
    by (simp_all add: s_def handleScaleChange_def initial_state_def)
  have t1: "appliedMetrics t = initial_metrics"
    "metric_scale (metrics t cpu_seconds_total) = 7656119366529843 / 4503599627370496"
    by (simp_all add: t_def handleScaleChange_def initial_state_def)
  have hyp: "http_request_duration_seconds \<noteq> cpu_seconds_total
        \<and> metric_value (appliedMetrics s http_request_duration_seconds)
            = Finite (base_value http_request_duration_seconds
                * metric_scale (appliedMetrics s http_request_duration_seconds))
        \<and> metric_scale (appliedMetrics s http_request_duration_seconds) \<noteq> 0
        \<and> is_double (metric_scale (metrics s http_request_duration_seconds))
        \<and> 1 / 10 \<le> metric_scale (metrics s http_request_duration_seconds)
        \<and> metric_scale (metrics s http_request_duration_seconds) \<le> 10"
    by (simp add: s1 two_double)
  have "metric_value (newAppliedMetrics_of s http_request_duration_seconds)
      = Finite (base_value http_request_duration_seconds * metric_scale (metrics s http_request_duration_seconds))"
    using base_value_up_to_rounding [where s = s and key = http_request_duration_seconds] hyp
    by blast
  then have a: "metric_value (newAppliedMetrics_of s http_request_duration_seconds) = Finite (1 / 4 * 2)"
    by (simp only: s1 base_value.simps)
  have "metric_value (newAppliedMetrics_of t cpu_seconds_total) =
       fl (base_value cpu_seconds_total * metric_scale (metrics t cpu_seconds_total))"
    using base_value_up_to_rounding [where s = t and key = cpu_seconds_total] t1(1)
    by blast
  then have b: "metric_value (newAppliedMetrics_of t cpu_seconds_total) = Finite (5757977467918745 / 2199023255552)"
    by (simp only: t1 base_value.simps cpu_times_1_7)
  from a b show ?thesis
    unfolding s_def t_def by blast
qed

text \<open>
  C10 as stated fails for \<open>cpu_seconds_total\<close>: applying the scale 1.7 and then the scale 1
  leaves 1540.2499999999998, one unit in the last place below the initial 1540.25.
\<close>

theorem base_value_drifts_counterexample:
  "fl (17 / 10) = Finite (7656119366529843 / 4503599627370496)
   \<and> metric_value (newAppliedMetrics_of
       (handleScaleChange cpu_seconds_total 1
          (applyChanges_settle (Responded 200 (Data_text ''ok''))
             (newAppliedMetrics_of
                (handleScaleChange cpu_seconds_total (7656119366529843 / 4503599627370496)
                   (initial_state No_item 0)))
             1700000000000 1700000000000
             (handleScaleChange cpu_seconds_total (7656119366529843 / 4503599627370496)
                (initial_state No_item 0))))
       cpu_seconds_total)
     = Finite (6774091138727935 / 4398046511104)
   \<and> metric_value (initial_metrics cpu_seconds_total) = Finite (6774091138727936 / 4398046511104)"
proof -
  define t where "t = handleScaleChange cpu_seconds_total (7656119366529843 / 4503599627370496)
          (initial_state No_item 0)"
  define u where "u = handleScaleChange cpu_seconds_total 1
          (applyChanges_settle (Responded 200 (Data_text ''ok'')) (newAppliedMetrics_of t)
             1700000000000 1700000000000 t)"
  have t1: "appliedMetrics t = initial_metrics"
    "metric_scale (metrics t cpu_seconds_total) = 7656119366529843 / 4503599627370496"
    by (simp_all add: t_def handleScaleChange_def initial_state_def)
  have first: "metric_value (newAppliedMetrics_of t cpu_seconds_total) = Finite (5757977467918745 / 2199023255552)"
    by (simp only: new_value t1 initial_metrics.simps metric.simps first_cpu)
  have u1: "appliedMetrics u = newAppliedMetrics_of t"
    "metric_scale (metrics u cpu_seconds_total) = 1"
    by (simp_all add: u_def handleScaleChange_def settle_appliedMetrics response_ok_def)
  have "metric_value (newAppliedMetrics_of u cpu_seconds_total) =
      js_mul (js_div (metric_value (appliedMetrics u cpu_seconds_total))
                (metric_scale (appliedMetrics u cpu_seconds_total)))
        (metric_scale (metrics u cpu_seconds_total))"
    by (rule new_value(1))
  also have "\<dots> = js_mul (js_div (metric_value (newAppliedMetrics_of t cpu_seconds_total))
                (metric_scale (newAppliedMetrics_of t cpu_seconds_total))) 1"
    by (simp only: u1)
  also have "\<dots> = js_mul (js_div (Finite (5757977467918745 / 2199023255552))
                (7656119366529843 / 4503599627370496)) 1"
    by (simp only: first new_value(2) t1)
  also have "\<dots> = Finite (6774091138727935 / 4398046511104)"
    by (rule second_cpu)
  finally have second:
    "metric_value (newAppliedMetrics_of u cpu_seconds_total) = Finite (6774091138727935 / 4398046511104)" .
  have "metric_value (initial_metrics cpu_seconds_total) = Finite (6774091138727936 / 4398046511104)"
    by simp
  with double_of_1_7 second show ?thesis
    unfolding u_def t_def by blast
qed

end
